theory Spec2Isabelle
  imports Main "HOL-Library.Word"
begin

unbundle bit_operations_syntax

section \<open>Data model (FlashFAT.hpp)\<close>

text \<open>
  \<^verbatim>\<open>byte\<close> is the Arduino 8-bit unsigned type; \<^verbatim>\<open>uint\<close> is \<^verbatim>\<open>unsigned int\<close>, taken as
  32 bits wide (the width of \<^verbatim>\<open>uint32_t\<close>, with which the source mixes it freely).
  Arithmetic on both wraps around. Members keep their names without the leading
  underscore; \<^verbatim>\<open>FlashFAT::begin\<close> and \<^verbatim>\<open>FlashFAT::write\<close> are \<open>FlashFAT_begin\<close> and
  \<open>FlashFAT_write\<close>.
\<close>

type_synonym byte = "8 word"
type_synonym uint = "32 word"

definition FLASH_FAT_MAX_FILE_COUNT :: nat where
  "FLASH_FAT_MAX_FILE_COUNT = 254"

definition FLASH_FAT_FILE_BUFFER :: nat where
  "FLASH_FAT_FILE_BUFFER = 512"

definition FLASH_FAT_NO_ERROR_FILE :: byte where
  "FLASH_FAT_NO_ERROR_FILE = 255"

record FlashFAT_file_entry =
  start_page :: "16 word"
  page_length :: "16 word"
  end_offset :: "8 word"

text \<open>
  The member \<^verbatim>\<open>_files[FLASH_FAT_MAX_FILE_COUNT]\<close> is a fixed array: it is a function from
  the index, and every access checks the index against the array bound. An access
  outside an array is undefined behaviour in C++; the operations below return \<open>None\<close>
  for it.
\<close>

record FlashFAT_file_allocation_table =
  num_files :: "8 word"
  file_close_err :: "8 word"
  files :: "nat \<Rightarrow> FlashFAT_file_entry"

datatype FlashFAT_status_t =
    FLASHFAT_OK
  | FLASHFAT_FLASH_FAILURE
  | FLASHFAT_MAX_FILE_COUNT_REACHED
  | FLASHFAT_FILE_ALLOCATION_TABLE_NOT_FOUND
  | FLASHFAT_WRONG_MODE
  | FLASHFAT_INVALID_FILE

text \<open>The enumerators' values, for the place where \<^verbatim>\<open>read\<close> returns one as a \<^verbatim>\<open>uint\<close>.\<close>

fun status_code :: "FlashFAT_status_t \<Rightarrow> uint" where
  "status_code FLASHFAT_OK = 0"
| "status_code FLASHFAT_FLASH_FAILURE = 1"
| "status_code FLASHFAT_MAX_FILE_COUNT_REACHED = 2"
| "status_code FLASHFAT_FILE_ALLOCATION_TABLE_NOT_FOUND = 3"
| "status_code FLASHFAT_WRONG_MODE = 4"
| "status_code FLASHFAT_INVALID_FILE = 5"

datatype FLASHFAT_MODE = FLASHFAT_WRITE_MODE | FLASHFAT_READ_MODE | FLASHFAT_NO_MODE

subsection \<open>The flash driver\<close>

text \<open>
  Modelled from the spec: the driver class \<^verbatim>\<open>W25Q64FV\<close> (W25Q64FV.hpp) is not among the
  sources. Its six calls are parameters of every operation: each takes the device
  state \<open>'f\<close> and returns a status and the new device state. Only the status
  \<^verbatim>\<open>W25Q64FV_OK\<close> is named by FlashFAT.cpp, every other status is a failure. A page
  buffer passed to or filled by the driver is a function from the offset in the buffer.
\<close>

datatype W25Q64FV_status_t = W25Q64FV_OK | W25Q64FV_FAILED

record 'f W25Q64FV =
  W25Q64FV_begin :: "int \<Rightarrow> 'f \<Rightarrow> W25Q64FV_status_t \<times> 'f"
  wait_until_free :: "'f \<Rightarrow> W25Q64FV_status_t \<times> 'f"
  enable_writing :: "'f \<Rightarrow> W25Q64FV_status_t \<times> 'f"
  read_page :: "uint \<Rightarrow> 'f \<Rightarrow> (W25Q64FV_status_t \<times> (nat \<Rightarrow> byte)) \<times> 'f"
  write_page :: "uint \<Rightarrow> (nat \<Rightarrow> byte) \<Rightarrow> 'f \<Rightarrow> W25Q64FV_status_t \<times> 'f"
  erase_sector :: "uint \<Rightarrow> 'f \<Rightarrow> W25Q64FV_status_t \<times> 'f"

subsection \<open>The FlashFAT object\<close>

record 'f FlashFAT =
  flash :: 'f
  table :: FlashFAT_file_allocation_table
  mode :: FLASHFAT_MODE
  write_buffer :: "nat \<Rightarrow> byte"
  write_buffer_index :: uint
  erase_index :: uint
  current_index :: uint
  end_index :: uint
  file_index :: uint

section \<open>The allocation table on the device\<close>

text \<open>The characters of \<^verbatim>\<open>"FLASHFAT"\<close>.\<close>

definition prefix_bytes :: "byte list" where
  "prefix_bytes = [70, 76, 65, 83, 72, 70, 65, 84]"

text \<open>
  The entry loop of \<^verbatim>\<open>get_file_allocation_table\<close>: \<open>i\<close> is the loop counter, \<open>index\<close>
  the position in the 256-byte \<open>buffer\<close>.
\<close>

function get_entries ::
  "(nat \<Rightarrow> byte) \<Rightarrow> nat \<Rightarrow> nat \<Rightarrow> FlashFAT_file_allocation_table
     \<Rightarrow> FlashFAT_file_allocation_table option" where
  "get_entries buffer i index t =
     (if i < unat (num_files t) then
        (if index + 4 < 256 \<and> i < FLASH_FAT_MAX_FILE_COUNT then
           get_entries buffer (i + 1) (index + 5)
             (t\<lparr>files := (files t)(i := (files t i)
                \<lparr>start_page := push_bit 8 (ucast (buffer index)) OR ucast (buffer (index + 1)),
                 page_length := push_bit 8 (ucast (buffer (index + 2))) OR ucast (buffer (index + 3)),
                 end_offset := buffer (index + 4)\<rparr>)\<rparr>)
         else None)
      else Some t)"
  by pat_completeness auto
termination
  by (relation "measure (\<lambda>(buffer, i, index, t). unat (num_files t) - i)") auto

definition get_file_allocation_table ::
  "'f W25Q64FV \<Rightarrow> FlashFAT_file_allocation_table \<Rightarrow> 'f
     \<Rightarrow> (FlashFAT_status_t \<times> FlashFAT_file_allocation_table \<times> 'f) option" where
  "get_file_allocation_table drv t f =
     (let f1 = snd (wait_until_free drv f);
          ((status, buffer), f2) = read_page drv 0 f1
      in if status \<noteq> W25Q64FV_OK then Some (FLASHFAT_FLASH_FAILURE, t, f2)
         else if map buffer [0..<8] \<noteq> prefix_bytes
           then Some (FLASHFAT_FILE_ALLOCATION_TABLE_NOT_FOUND, t, f2)
         else
           (case get_entries buffer 0 10 (t\<lparr>num_files := buffer 8, file_close_err := buffer 9\<rparr>) of
              None \<Rightarrow> None
            | Some t' \<Rightarrow> Some (FLASHFAT_OK, t', f2)))"

text \<open>The entry loop of \<^verbatim>\<open>write_file_allocation_table\<close>, filling the 256-byte \<open>buffer\<close>.\<close>

function put_entries ::
  "FlashFAT_file_allocation_table \<Rightarrow> nat \<Rightarrow> nat \<Rightarrow> (nat \<Rightarrow> byte) \<Rightarrow> (nat \<Rightarrow> byte) option" where
  "put_entries t i index buffer =
     (if i < unat (num_files t) then
        (if index + 4 < 256 \<and> i < FLASH_FAT_MAX_FILE_COUNT then
           put_entries t (i + 1) (index + 5)
             (buffer(index := ucast (drop_bit 8 (start_page (files t i))),
                     index + 1 := ucast (start_page (files t i)),
                     index + 2 := ucast (drop_bit 8 (page_length (files t i))),
                     index + 3 := ucast (page_length (files t i)),
                     index + 4 := end_offset (files t i)))
         else None)
      else Some buffer)"
  by pat_completeness auto
termination
  by (relation "measure (\<lambda>(t, i, index, buffer). unat (num_files t) - i)") auto

text \<open>The buffer that \<^verbatim>\<open>write_file_allocation_table\<close> builds before it touches the device.\<close>

definition table_buffer :: "FlashFAT_file_allocation_table \<Rightarrow> (nat \<Rightarrow> byte) option" where
  "table_buffer t =
     put_entries t 0 10
       ((\<lambda>j. if j < 8 then prefix_bytes ! j else 0)(8 := num_files t, 9 := file_close_err t))"

definition write_file_allocation_table ::
  "'f W25Q64FV \<Rightarrow> FlashFAT_file_allocation_table \<Rightarrow> 'f \<Rightarrow> (FlashFAT_status_t \<times> 'f) option" where
  "write_file_allocation_table drv t f =
     (case table_buffer t of
        None \<Rightarrow> None
      | Some buffer \<Rightarrow>
          (let f1 = snd (wait_until_free drv f);
               f2 = snd (enable_writing drv f1);
               f3 = snd (wait_until_free drv f2);
               f4 = snd (erase_sector drv 0 f3);
               f5 = snd (wait_until_free drv f4);
               f6 = snd (enable_writing drv f5);
               f7 = snd (wait_until_free drv f6);
               f8 = snd (write_page drv 0 buffer f7)
           in Some (FLASHFAT_OK, f8)))"

section \<open>Operations (FlashFAT.cpp)\<close>



text \<open>
  \<^verbatim>\<open>last_used_address\<close> and \<^verbatim>\<open>next_start_address\<close> of \<^verbatim>\<open>new_file\<close>. The sum of the
  16-bit and 8-bit fields is computed in \<^verbatim>\<open>int\<close> and cannot overflow 32 bits.
\<close>

definition last_used_address :: "FlashFAT_file_allocation_table \<Rightarrow> uint" where
  "last_used_address t =
     (if num_files t = 0 then 0
      else (let e = files t (unat (num_files t) - 1)
            in (ucast (start_page e) + ucast (page_length e)) * 256 + ucast (end_offset e)))"

definition next_start_address :: "FlashFAT_file_allocation_table \<Rightarrow> uint" where
  "next_start_address t = push_bit 12 (drop_bit 12 (last_used_address t) + 1)"

definition new_file ::
  "'f W25Q64FV \<Rightarrow> 'f FlashFAT \<Rightarrow> (FlashFAT_status_t \<times> 'f FlashFAT) option" where
  "new_file drv s =
     (if mode s \<noteq> FLASHFAT_NO_MODE then Some (FLASHFAT_WRONG_MODE, s)
      else if unat (num_files (table s)) \<ge> FLASH_FAT_MAX_FILE_COUNT
        then Some (FLASHFAT_MAX_FILE_COUNT_REACHED, s)
      else
        (let next = next_start_address (table s);
             n = num_files (table s) + 1;
             fi = (ucast n :: uint) - 1;
             t1 = (table s)\<lparr>num_files := n\<rparr>;
             t2 = t1\<lparr>files := (files t1)(unat fi := (files t1 (unat fi))
                         \<lparr>start_page := ucast (drop_bit 8 next)\<rparr>)\<rparr>;
             f1 = snd (wait_until_free drv (flash s));
             f2 = snd (erase_sector drv next f1);
             t3 = t2\<lparr>file_close_err := ucast fi\<rparr>
         in case write_file_allocation_table drv t3 f2 of
              None \<Rightarrow> None
            | Some (r, f3) \<Rightarrow>
                Some (r, s\<lparr>flash := f3, table := t3, mode := FLASHFAT_WRITE_MODE,
                          erase_index := next + 4095, current_index := next,
                          file_index := fi\<rparr>)))"

text \<open>
  The erase-ahead check shared by \<^verbatim>\<open>write\<close> and \<^verbatim>\<open>close_file\<close>; the status of
  \<^verbatim>\<open>erase_sector\<close> is dropped in both.
\<close>

definition check_erase :: "'f W25Q64FV \<Rightarrow> 'f FlashFAT \<Rightarrow> 'f FlashFAT" where
  "check_erase drv s =
     (if current_index s + of_nat FLASH_FAT_FILE_BUFFER > erase_index s then
        s\<lparr>flash := snd (erase_sector drv (erase_index s + 1) (flash s)),
          erase_index := erase_index s + 4096\<rparr>
      else s)"

text \<open>One pass of the page loop of \<^verbatim>\<open>write\<close>: program page \<open>p\<close> of the buffer.\<close>

definition write_one_page :: "'f W25Q64FV \<Rightarrow> nat \<Rightarrow> 'f FlashFAT \<Rightarrow> 'f FlashFAT" where
  "write_one_page drv p s =
     (let f1 = snd (wait_until_free drv (flash s));
          f2 = snd (enable_writing drv f1);
          f3 = snd (wait_until_free drv f2);
          f4 = snd (write_page drv (current_index s) (\<lambda>j. write_buffer s (p * 256 + j)) f3)
      in s\<lparr>flash := f4, current_index := current_index s + 256\<rparr>)"

definition flush_buffer :: "'f W25Q64FV \<Rightarrow> 'f FlashFAT \<Rightarrow> 'f FlashFAT" where
  "flush_buffer drv s =
     (fold (write_one_page drv) [0..<FLASH_FAT_FILE_BUFFER div 256] (check_erase drv s))
       \<lparr>write_buffer_index := 0\<rparr>"

text \<open>
  The byte loop of \<^verbatim>\<open>write\<close>, over the \<^verbatim>\<open>length\<close> bytes the caller passes. Storing at
  \<^verbatim>\<open>_write_buffer[_write_buffer_index]\<close> is inside the array only below
  \<^verbatim>\<open>FLASH_FAT_FILE_BUFFER\<close>.
\<close>

fun write_loop :: "'f W25Q64FV \<Rightarrow> byte list \<Rightarrow> 'f FlashFAT \<Rightarrow> 'f FlashFAT option" where
  "write_loop drv [] s = Some s"
| "write_loop drv (b # bs) s =
     (if unat (write_buffer_index s) \<ge> FLASH_FAT_FILE_BUFFER then None
      else
        (let s1 = s\<lparr>write_buffer := (write_buffer s)(unat (write_buffer_index s) := b),
                    write_buffer_index := write_buffer_index s + 1\<rparr>
         in write_loop drv bs
              (if write_buffer_index s1 \<ge> of_nat FLASH_FAT_FILE_BUFFER
               then flush_buffer drv s1 else s1)))"

definition FlashFAT_write ::
  "'f W25Q64FV \<Rightarrow> byte list \<Rightarrow> 'f FlashFAT \<Rightarrow> (FlashFAT_status_t \<times> 'f FlashFAT) option" where
  "FlashFAT_write drv buffer s =
     (if mode s \<noteq> FLASHFAT_WRITE_MODE then Some (FLASHFAT_WRONG_MODE, s)
      else case write_loop drv buffer s of
             None \<Rightarrow> None
           | Some s' \<Rightarrow> Some (FLASHFAT_OK, s'))"

text \<open>
  The local \<^verbatim>\<open>bytes_to_write\<close> of the page loop of \<^verbatim>\<open>close_file\<close>, for page \<open>p\<close>: a full
  page, or on the last page what the buffer holds beyond full pages.
\<close>

definition bytes_to_write :: "nat \<Rightarrow> nat \<Rightarrow> uint \<Rightarrow> uint" where
  "bytes_to_write pages_to_write p wbi =
     (if p = pages_to_write - 1 then
        (if wbi mod 256 = 0 \<and> wbi \<noteq> 0 then 256 else wbi mod 256)
      else 256)"

text \<open>
  The page loop of \<^verbatim>\<open>close_file\<close>, from page \<open>p\<close> up to \<open>pages_to_write\<close>. The result is
  \<open>False\<close> when the loop left the function with \<^verbatim>\<open>FLASHFAT_FLASH_FAILURE\<close>.
\<close>

function close_pages :: "'f W25Q64FV \<Rightarrow> nat \<Rightarrow> nat \<Rightarrow> 'f FlashFAT \<Rightarrow> bool \<times> 'f FlashFAT" where
  "close_pages drv pages_to_write p s =
     (if p < pages_to_write then
        (let f1 = snd (wait_until_free drv (flash s));
             f2 = snd (enable_writing drv f1);
             f3 = snd (wait_until_free drv f2);
             (status, f4) = write_page drv (current_index s) (\<lambda>j. write_buffer s (p * 256 + j)) f3
         in if status \<noteq> W25Q64FV_OK then (False, s\<lparr>flash := f4\<rparr>)
            else close_pages drv pages_to_write (p + 1)
                   (s\<lparr>flash := f4,
                      current_index := current_index s
                        + bytes_to_write pages_to_write p (write_buffer_index s)\<rparr>))
      else (True, s))"
  by pat_completeness auto
termination
  by (relation "measure (\<lambda>(drv, pages_to_write, p, s). pages_to_write - p)") auto

text \<open>The tail of \<^verbatim>\<open>close_file\<close> in write mode: the entry, the table, then the reset.\<close>

definition reset_session :: "'f FlashFAT \<Rightarrow> 'f FlashFAT" where
  "reset_session s =
     s\<lparr>mode := FLASHFAT_NO_MODE, write_buffer_index := 0, file_index := 0,
       erase_index := 0, current_index := 0\<rparr>"

definition close_out_table :: "'f FlashFAT \<Rightarrow> FlashFAT_file_allocation_table" where
  "close_out_table s =
     (let t1 = (table s)\<lparr>file_close_err := FLASH_FAT_NO_ERROR_FILE\<rparr>;
          i = unat (file_index s);
          t2 = t1\<lparr>files := (files t1)(i := (files t1 i)
                 \<lparr>page_length := ucast (current_index s div 256 - ucast (start_page (files t1 i)))\<rparr>)\<rparr>
      in t2\<lparr>files := (files t2)(i := (files t2 i)
               \<lparr>end_offset := ucast (write_buffer_index s mod 256)\<rparr>)\<rparr>)"

definition close_out ::
  "'f W25Q64FV \<Rightarrow> 'f FlashFAT \<Rightarrow> (FlashFAT_status_t \<times> 'f FlashFAT) option" where
  "close_out drv s =
     (if unat (file_index s) \<ge> FLASH_FAT_MAX_FILE_COUNT then None
      else case write_file_allocation_table drv (close_out_table s) (flash s) of
             None \<Rightarrow> None
           | Some (r, f') \<Rightarrow>
               Some (FLASHFAT_OK, reset_session (s\<lparr>table := close_out_table s, flash := f'\<rparr>)))"

definition close_file ::
  "'f W25Q64FV \<Rightarrow> 'f FlashFAT \<Rightarrow> (FlashFAT_status_t \<times> 'f FlashFAT) option" where
  "close_file drv s =
     (if mode s = FLASHFAT_WRITE_MODE then
        (if write_buffer_index s \<noteq> 0 then
           (if unat (write_buffer_index s) > FLASH_FAT_FILE_BUFFER then None
            else
              (let s1 = s\<lparr>write_buffer := (\<lambda>j. if unat (write_buffer_index s) \<le> j
                                                  \<and> j < FLASH_FAT_FILE_BUFFER
                                               then 255 else write_buffer s j)\<rparr>;
                   s2 = check_erase drv s1;
                   pages_to_write = unat ((write_buffer_index s + 255) div 256)
               in case close_pages drv pages_to_write 0 s2 of
                    (False, s3) \<Rightarrow> Some (FLASHFAT_FLASH_FAILURE, s3)
                  | (True, s3) \<Rightarrow> close_out drv s3))
         else close_out drv s)
      else Some (FLASHFAT_OK, reset_session s))"

definition open_file ::
  "'f W25Q64FV \<Rightarrow> uint \<Rightarrow> 'f FlashFAT \<Rightarrow> (FlashFAT_status_t \<times> 'f FlashFAT) option" where
  "open_file drv fi s =
     (if mode s \<noteq> FLASHFAT_NO_MODE then Some (FLASHFAT_WRONG_MODE, s)
      else case get_file_allocation_table drv (table s) (flash s) of
             None \<Rightarrow> None
           | Some (fat_status, t', f') \<Rightarrow>
               (let s1 = s\<lparr>table := t', flash := f'\<rparr>
                in if fat_status \<noteq> FLASHFAT_OK then Some (fat_status, s1)
                   else if ucast (num_files t') \<le> fi then Some (FLASHFAT_INVALID_FILE, s1)
                   else if unat fi \<ge> FLASH_FAT_MAX_FILE_COUNT then None
                   else
                     (let e = files t' (unat fi);
                          cur = ucast (start_page e) * 256
                      in Some (FLASHFAT_OK,
                           s1\<lparr>mode := FLASHFAT_READ_MODE, file_index := fi,
                              current_index := cur,
                              end_index := cur + ucast (page_length e) * 256
                                             + ucast (end_offset e)\<rparr>))))"

definition peek :: "'f FlashFAT \<Rightarrow> uint" where
  "peek s = (if mode s \<noteq> FLASHFAT_READ_MODE then 0 else end_index s - current_index s)"

text \<open>
  The \<^verbatim>\<open>while\<close> loop of \<^verbatim>\<open>read\<close>. \<open>out\<close> collects the bytes copied to the caller's buffer,
  in order. The result is \<open>False\<close> when the loop left the function with \<^verbatim>\<open>return 0\<close>.
\<close>

function read_loop ::
  "'f W25Q64FV \<Rightarrow> uint \<Rightarrow> 'f FlashFAT \<Rightarrow> byte list \<Rightarrow> bool \<times> 'f FlashFAT \<times> byte list" where
  "read_loop drv len s out =
     (if len > 0 then
        (let ((status, read_buffer), f') = read_page drv (current_index s) (flash s);
             s1 = s\<lparr>flash := f', current_index := current_index s + len\<rparr>
         in if status \<noteq> W25Q64FV_OK then (False, s1, out)
            else if len > 255
              then read_loop drv (len - 256) s1 (out @ map read_buffer [0..<256])
              else read_loop drv 0 s1 (out @ map read_buffer [0..<unat len]))
      else (True, s, out))"
  by pat_completeness auto
termination
  by (relation "measure (\<lambda>(drv, len, s, out). unat len)")
     (auto simp: unat_sub word_less_nat_alt word_le_nat_alt unat_gt_0)

text \<open>
  \<^verbatim>\<open>read\<close> returns its \<^verbatim>\<open>uint\<close> and the bytes it copied to the caller's buffer; \<open>len\<close>
  is its parameter \<^verbatim>\<open>length\<close>. In the wrong mode the \<^verbatim>\<open>uint\<close> is the value of
  \<^verbatim>\<open>FLASHFAT_WRONG_MODE\<close>. The local \<^verbatim>\<open>pages_req\<close> is never used and is left out.
\<close>

definition read :: "'f W25Q64FV \<Rightarrow> uint \<Rightarrow> 'f FlashFAT \<Rightarrow> uint \<times> byte list \<times> 'f FlashFAT" where
  "read drv len s =
     (if mode s \<noteq> FLASHFAT_READ_MODE then (status_code FLASHFAT_WRONG_MODE, [], s)
      else if peek s = 0 then (0, [], s)
      else
        (let len1 = (if current_index s + len > end_index s
                     then end_index s - current_index s else len)
         in case read_loop drv len1 s [] of
              (False, s', out) \<Rightarrow> (0, out, s')
            | (True, s', out) \<Rightarrow> (len1, out, s')))"

definition delete_last_file ::
  "'f W25Q64FV \<Rightarrow> 'f FlashFAT \<Rightarrow> (FlashFAT_status_t \<times> 'f FlashFAT) option" where
  "delete_last_file drv s =
     (if mode s \<noteq> FLASHFAT_NO_MODE then Some (FLASHFAT_INVALID_FILE, s)
      else
        (let t = (if num_files (table s) > 0
                  then (table s)\<lparr>num_files := num_files (table s) - 1\<rparr> else table s)
         in case write_file_allocation_table drv t (flash s) of
              None \<Rightarrow> None
            | Some (r, f') \<Rightarrow> Some (r, s\<lparr>table := t, flash := f'\<rparr>)))"

definition delete_all_files ::
  "'f W25Q64FV \<Rightarrow> 'f FlashFAT \<Rightarrow> (FlashFAT_status_t \<times> 'f FlashFAT) option" where
  "delete_all_files drv s =
     (if mode s \<noteq> FLASHFAT_NO_MODE then Some (FLASHFAT_INVALID_FILE, s)
      else
        (let t = (table s)\<lparr>num_files := 0\<rparr>
         in case write_file_allocation_table drv t (flash s) of
              None \<Rightarrow> None
            | Some (r, f') \<Rightarrow> Some (r, s\<lparr>table := t, flash := f'\<rparr>)))"

section \<open>Concrete devices and states\<close>

text \<open>
  The object as constructed: \<^verbatim>\<open>_mode = FLASHFAT_NO_MODE\<close>, \<^verbatim>\<open>_write_buffer_index = 0\<close>,
  every other member zero.
\<close>

definition fresh :: "'f \<Rightarrow> 'f FlashFAT" where
  "fresh f =
     \<lparr>flash = f,
      table = \<lparr>num_files = 0, file_close_err = 0,
               files = (\<lambda>i. \<lparr>start_page = 0, page_length = 0, end_offset = 0\<rparr>)\<rparr>,
      mode = FLASHFAT_NO_MODE, write_buffer = (\<lambda>j. 0), write_buffer_index = 0,
      erase_index = 0, current_index = 0, end_index = 0, file_index = 0\<rparr>"

text \<open>
  Modelled from the spec: a NOR flash behind the driver calls. The device state is the
  content of every cell. \<^verbatim>\<open>read_page\<close> delivers the 256 bytes from the address on,
  \<^verbatim>\<open>write_page\<close> programs 256 bytes from the address on and can only clear bits,
  \<^verbatim>\<open>erase_sector\<close> sets the 4096-byte sector that contains the address to the fill value
  255. No call fails.
\<close>

definition nor_flash :: "(uint \<Rightarrow> byte) W25Q64FV" where
  "nor_flash =
     \<lparr>W25Q64FV_begin = (\<lambda>cs f. (W25Q64FV_OK, f)),
      wait_until_free = (\<lambda>f. (W25Q64FV_OK, f)),
      enable_writing = (\<lambda>f. (W25Q64FV_OK, f)),
      read_page = (\<lambda>a f. ((W25Q64FV_OK, (\<lambda>j. f (a + of_nat j))), f)),
      write_page = (\<lambda>a d f. (W25Q64FV_OK,
                      (\<lambda>x. if unat (x - a) < 256 then f x AND d (unat (x - a)) else f x))),
      erase_sector = (\<lambda>a f. (W25Q64FV_OK,
                      (\<lambda>x. if drop_bit 12 x = drop_bit 12 a then 255 else f x)))\<rparr>"

text \<open>A medium that was never written: every cell holds the fill value.\<close>

definition erased :: "uint \<Rightarrow> byte" where
  "erased = (\<lambda>x. 255)"

text \<open>A device on which every driver call fails and nothing changes.\<close>

definition dead_flash :: "unit W25Q64FV" where
  "dead_flash =
     \<lparr>W25Q64FV_begin = (\<lambda>cs f. (W25Q64FV_FAILED, f)),
      wait_until_free = (\<lambda>f. (W25Q64FV_FAILED, f)),
      enable_writing = (\<lambda>f. (W25Q64FV_FAILED, f)),
      read_page = (\<lambda>a f. ((W25Q64FV_FAILED, (\<lambda>j. 0)), f)),
      write_page = (\<lambda>a d f. (W25Q64FV_FAILED, f)),
      erase_sector = (\<lambda>a f. (W25Q64FV_FAILED, f))\<rparr>"


text \<open>
  A write session on the dead device, one byte short of a full buffer: the first file,
  at 4096, with 3584 bytes programmed so far and 511 bytes buffered.
\<close>

definition full_but_one :: "unit FlashFAT" where
  "full_but_one =
     (fresh ())\<lparr>mode := FLASHFAT_WRITE_MODE, write_buffer_index := 511,
       current_index := 7680, erase_index := 8191,
       table := (table (fresh ()))\<lparr>num_files := 1,
          files := (files (table (fresh ())))
            (0 := \<lparr>start_page = 16, page_length = 0, end_offset = 0\<rparr>)\<rparr>\<rparr>"

section \<open>Notions used in the statements\<close>

text \<open>The five bytes of an entry in the page record, and the entry read from five bytes.\<close>

definition entry_bytes :: "FlashFAT_file_entry \<Rightarrow> byte list" where
  "entry_bytes e =
     [ucast (drop_bit 8 (start_page e)), ucast (start_page e),
      ucast (drop_bit 8 (page_length e)), ucast (page_length e), end_offset e]"

definition entry_at :: "(nat \<Rightarrow> byte) \<Rightarrow> nat \<Rightarrow> FlashFAT_file_entry" where
  "entry_at buffer index =
     \<lparr>start_page = push_bit 8 (ucast (buffer index)) OR ucast (buffer (index + 1)),
      page_length = push_bit 8 (ucast (buffer (index + 2))) OR ucast (buffer (index + 3)),
      end_offset = buffer (index + 4)\<rparr>"

text \<open>
  The byte addresses an entry stands for: its first byte, and the end of its data, the
  address \<^verbatim>\<open>new_file\<close> calls \<^verbatim>\<open>last_used_address\<close> and \<^verbatim>\<open>open_file\<close> the \<^verbatim>\<open>_end_index\<close>.
\<close>

definition entry_begin :: "FlashFAT_file_entry \<Rightarrow> nat" where
  "entry_begin e = unat (start_page e) * 256"

definition entry_end :: "FlashFAT_file_entry \<Rightarrow> nat" where
  "entry_end e = (unat (start_page e) + unat (page_length e)) * 256 + unat (end_offset e)"

text \<open>The end of the last file of a table, 0 for a table without files.\<close>

definition last_end :: "FlashFAT_file_allocation_table \<Rightarrow> nat" where
  "last_end t = (if num_files t = 0 then 0 else entry_end (files t (unat (num_files t) - 1)))"


text \<open>
  A write session on the NOR flash after 1000 bytes were written to the first file: 512
  bytes are programmed, 488 are in the buffer.
\<close>

definition writing_1000 :: "(uint \<Rightarrow> byte) FlashFAT" where
  "writing_1000 =
     (fresh erased)\<lparr>mode := FLASHFAT_WRITE_MODE, write_buffer_index := 488,
       current_index := 4608, erase_index := 8191,
       table := \<lparr>num_files = 1, file_close_err = 0,
         files = (\<lambda>i. \<lparr>start_page = 0, page_length = 0, end_offset = 0\<rparr>)
           (0 := \<lparr>start_page = 16, page_length = 0, end_offset = 0\<rparr>)\<rparr>\<rparr>"

text \<open>
  A write session opened by \<^verbatim>\<open>new_file\<close> after the file of \<open>one_file\<close> was read to
  its end and closed: \<^verbatim>\<open>_end_index\<close> still holds the end of that file.
\<close>

definition second_session :: "(uint \<Rightarrow> byte) FlashFAT" where
  "second_session =
     (fresh erased)\<lparr>mode := FLASHFAT_WRITE_MODE, current_index := 8192, erase_index := 12287,
       end_index := 5096, file_index := 1,
       table := \<lparr>num_files = 2, file_close_err = 1,
         files = (\<lambda>i. \<lparr>start_page = 0, page_length = 0, end_offset = 0\<rparr>)
           (0 := \<lparr>start_page = 16, page_length = 3, end_offset = 232\<rparr>,
            1 := \<lparr>start_page = 32, page_length = 0, end_offset = 0\<rparr>)\<rparr>\<rparr>"

text \<open>
  A file written and read back in full: \<^verbatim>\<open>new_file\<close>, one \<^verbatim>\<open>write\<close> of the bytes,
  \<^verbatim>\<open>close_file\<close>, \<^verbatim>\<open>open_file\<close> of the new file, one \<^verbatim>\<open>read\<close> of as many bytes. The
  result is what \<^verbatim>\<open>read\<close> returns and the bytes it copied to the caller's buffer.
\<close>

definition write_then_read ::
  "'f W25Q64FV \<Rightarrow> byte list \<Rightarrow> 'f FlashFAT \<Rightarrow> (uint \<times> byte list) option" where
  "write_then_read drv buffer s =
     (case new_file drv s of
        Some (FLASHFAT_OK, s1) \<Rightarrow>
          (case FlashFAT_write drv buffer s1 of
             Some (FLASHFAT_OK, s2) \<Rightarrow>
               (case close_file drv s2 of
                  Some (FLASHFAT_OK, s3) \<Rightarrow>
                    (case open_file drv (ucast (num_files (table s3)) - 1) s3 of
                       Some (FLASHFAT_OK, s4) \<Rightarrow>
                         (let (n, out, s5) = read drv (of_nat (length buffer)) s4
                          in Some (n, out))
                     | _ \<Rightarrow> None)
                | _ \<Rightarrow> None)
           | _ \<Rightarrow> None)
      | _ \<Rightarrow> None)"

text \<open>A read session on the NOR flash at the start of a file of 257 bytes at 4096.\<close>

definition reading_257 :: "(uint \<Rightarrow> byte) FlashFAT" where
  "reading_257 =
     (fresh erased)\<lparr>mode := FLASHFAT_READ_MODE, current_index := 4096, end_index := 4353,
       table := \<lparr>num_files = 1, file_close_err = 255,
         files = (\<lambda>i. \<lparr>start_page = 0, page_length = 0, end_offset = 0\<rparr>)
           (0 := \<lparr>start_page = 16, page_length = 1, end_offset = 1\<rparr>)\<rparr>\<rparr>"

text \<open>
  The invariant of the table: the entries in use, in the order of their index, start on
  sector boundaries, lie behind the sector of the table, and each one begins after the
  one before it begins and ends.
\<close>

definition table_entries :: "FlashFAT_file_allocation_table \<Rightarrow> FlashFAT_file_entry list" where
  "table_entries t = map (files t) [0..<unat (num_files t)]"

definition sector_aligned :: "FlashFAT_file_entry \<Rightarrow> bool" where
  "sector_aligned e = (entry_begin e mod 4096 = 0)"

definition behind_table_sector :: "FlashFAT_file_entry \<Rightarrow> bool" where
  "behind_table_sector e = (4096 \<le> entry_begin e)"

fun ascending :: "FlashFAT_file_entry list \<Rightarrow> bool" where
  "ascending (e1 # e2 # es) =
     (entry_begin e1 < entry_begin e2 \<and> entry_end e1 \<le> entry_begin e2 \<and> ascending (e2 # es))"
| "ascending es = True"

definition table_invariant :: "FlashFAT_file_allocation_table \<Rightarrow> bool" where
  "table_invariant t =
     (list_all sector_aligned (table_entries t)
      \<and> list_all behind_table_sector (table_entries t)
      \<and> ascending (table_entries t))"

text \<open>
  A closed engine whose table holds one file of 16769024 bytes at address 4096, as
  \<^verbatim>\<open>write\<close> and \<^verbatim>\<open>close_file\<close> record it: the file ends at \<open>2 ^ 24 - 4096\<close>.
\<close>

definition near_the_top :: "'f \<Rightarrow> 'f FlashFAT" where
  "near_the_top f =
     (fresh f)\<lparr>table := \<lparr>num_files = 1, file_close_err = 255,
        files = (\<lambda>i. \<lparr>start_page = 0, page_length = 0, end_offset = 0\<rparr>)
          (0 := \<lparr>start_page = 16, page_length = 65504, end_offset = 0\<rparr>)\<rparr>\<rparr>"




text \<open>
  The flush of \<^verbatim>\<open>close_file\<close> in write mode, up to the end of its page loop: nothing when
  the buffer is empty, else the padding, the erase-ahead check and the page loop. The
  result is \<open>False\<close> when a page program of the loop failed.
\<close>

definition flush_of_close :: "'f W25Q64FV \<Rightarrow> 'f FlashFAT \<Rightarrow> bool \<times> 'f FlashFAT" where
  "flush_of_close drv s =
     (if write_buffer_index s = 0 then (True, s)
      else close_pages drv (unat ((write_buffer_index s + 255) div 256)) 0
             (check_erase drv
                (s\<lparr>write_buffer := (\<lambda>j. if unat (write_buffer_index s) \<le> j
                                             \<and> j < FLASH_FAT_FILE_BUFFER
                                          then 255 else write_buffer s j)\<rparr>)))"

text \<open>
  The driver calls that put a page record on the device: sector 0 is erased and the
  record is programmed at address 0, each after write-enable and waiting.
\<close>

definition program_table_page :: "'f W25Q64FV \<Rightarrow> (nat \<Rightarrow> byte) \<Rightarrow> 'f \<Rightarrow> 'f" where
  "program_table_page drv buffer f =
     snd (write_page drv 0 buffer
       (snd (wait_until_free drv (snd (enable_writing drv (snd (wait_until_free drv
         (snd (erase_sector drv 0
           (snd (wait_until_free drv (snd (enable_writing drv
             (snd (wait_until_free drv f)))))))))))))))"

text \<open>A NOR flash on which the page at address 0 cannot be programmed.\<close>

definition table_page_dead :: "(uint \<Rightarrow> byte) W25Q64FV" where
  "table_page_dead =
     nor_flash\<lparr>write_page := (\<lambda>a d f. if a = 0 then (W25Q64FV_FAILED, f)
                                        else write_page nor_flash a d f)\<rparr>"

section \<open>The session fields under the page programs\<close>

lemma check_erase_fields [simp]:
  "mode (check_erase drv s) = mode s"
  "write_buffer_index (check_erase drv s) = write_buffer_index s"
  "table (check_erase drv s) = table s"
  "write_buffer (check_erase drv s) = write_buffer s"
  "current_index (check_erase drv s) = current_index s"
  "file_index (check_erase drv s) = file_index s"
  "end_index (check_erase drv s) = end_index s"
  by (simp_all add: check_erase_def)

lemma write_one_page_fields [simp]:
  "mode (write_one_page drv p s) = mode s"
  "write_buffer_index (write_one_page drv p s) = write_buffer_index s"
  "table (write_one_page drv p s) = table s"
  "write_buffer (write_one_page drv p s) = write_buffer s"
  "current_index (write_one_page drv p s) = current_index s + 256"
  "file_index (write_one_page drv p s) = file_index s"
  "end_index (write_one_page drv p s) = end_index s"
  "erase_index (write_one_page drv p s) = erase_index s"
  by (simp_all add: write_one_page_def Let_def)

lemma buffer_pages: "[0..<FLASH_FAT_FILE_BUFFER div 256] = [0, 1]"
  by (simp add: FLASH_FAT_FILE_BUFFER_def numeral_2_eq_2)

lemma flush_buffer_pages:
  "flush_buffer drv s =
     (write_one_page drv 1 (write_one_page drv 0 (check_erase drv s)))\<lparr>write_buffer_index := 0\<rparr>"
  by (simp add: flush_buffer_def buffer_pages)

lemma flush_buffer_fields [simp]:
  "mode (flush_buffer drv s) = mode s"
  "write_buffer_index (flush_buffer drv s) = 0"
  "table (flush_buffer drv s) = table s"
  "write_buffer (flush_buffer drv s) = write_buffer s"
  "current_index (flush_buffer drv s) = current_index s + 512"
  "file_index (flush_buffer drv s) = file_index s"
  "end_index (flush_buffer drv s) = end_index s"
  by (simp_all add: flush_buffer_def buffer_pages)

section \<open>Machine arithmetic\<close>

lemma unat16_bound: "unat (w :: 16 word) < 65536"
  using unsigned_less [of w, where 'a = nat] by simp

lemma unat8_bound: "unat (w :: 8 word) < 256"
  using unsigned_less [of w, where 'a = nat] by simp

lemma unat_ucast16 [simp]: "unat (ucast (w :: 16 word) :: uint) = unat w"
  using unat16_bound [of w] by (simp add: unsigned_ucast_eq take_bit_eq_mod)

lemma unat_ucast8 [simp]: "unat (ucast (w :: 8 word) :: uint) = unat w"
  using unat8_bound [of w] by (simp add: unsigned_ucast_eq take_bit_eq_mod)

lemma unat_extent:
  "unat ((ucast (a :: 16 word) + ucast (b :: 16 word)) * 256 + ucast (c :: 8 word) :: uint)
     = (unat a + unat b) * 256 + unat c"
proof -
  have bounds: "unat a < 65536" "unat b < 65536" "unat c < 256"
    by (rule unat16_bound unat8_bound)+
  have s: "unat (ucast a + ucast b :: uint) = unat a + unat b"
    using bounds by (simp add: unat_word_ariths)
  have m: "unat ((ucast a + ucast b) * 256 :: uint) = (unat a + unat b) * 256"
    using bounds by (simp only: unat_word_ariths(2) s) simp
  show ?thesis
    using bounds by (simp only: unat_word_ariths(1) m unat_ucast8) simp
qed

lemma unat_next_sector:
  assumes "unat l < 2 ^ 32 - 4096"
  shows "unat (push_bit 12 (drop_bit 12 l + 1) :: uint) = (unat l div 4096 + 1) * 4096"
proof -
  have d: "unat (drop_bit 12 l) = unat l div 4096"
    by (simp add: drop_bit_eq_div unat_div)
  have "unat l div 4096 < 2 ^ 20"
    using assms by simp
  then have s: "unat (drop_bit 12 l + 1) = unat l div 4096 + 1"
    by (simp only: unat_word_ariths d) simp
  have "(unat l div 4096 + 1) * 4096 < 2 ^ 32"
    using assms by simp
  then show ?thesis
    by (simp only: push_bit_eq_mult unat_word_ariths(2) s) simp
qed

lemma unat_page_of:
  assumes "unat a < 2 ^ 24"
  shows "unat (ucast (drop_bit 8 (a :: uint)) :: 16 word) = unat a div 256"
proof -
  have "unat (drop_bit 8 a) = unat a div 256"
    by (simp add: drop_bit_eq_div unat_div)
  moreover have "unat a div 256 < 2 ^ 16" using assms by simp
  ultimately show ?thesis
    by (simp add: unsigned_ucast_eq take_bit_eq_mod)
qed

lemma uint_ucast16: "uint (ucast (w :: 16 word) :: uint) = uint w"
  using unat_ucast16 [of w] by (simp only: uint_nat)

lemma page_length_formula:
  "(ucast (c div 256 - ucast sp) :: 16 word) = ucast ((c - ucast sp * 256) div 256)"
  for c :: uint and sp :: "16 word"
proof -
  have sb: "uint sp < 65536" "0 \<le> uint sp"
    using unsigned_less [of sp, where 'a = int] by simp_all
  have m: "uint (ucast sp * 256 :: uint) = uint sp * 256"
    using sb by (simp add: uint_word_ariths uint_ucast16 take_bit_eq_mod)
  have "uint (c div 256 - ucast sp :: uint) = take_bit 32 (uint c div 256 - uint sp)"
    by (simp only: uint_word_ariths uint_div_distrib uint_ucast16 take_bit_eq_mod) simp
  then have L: "uint (ucast (c div 256 - ucast sp) :: 16 word) = take_bit 16 (uint c div 256 - uint sp)"
    by (simp only: unsigned_ucast_eq) simp
  have "uint (c - ucast sp * 256 :: uint) = take_bit 32 (uint c - uint sp * 256)"
    by (simp only: uint_word_ariths(2) m take_bit_eq_mod) simp
  then have "uint ((c - ucast sp * 256) div 256) = drop_bit 8 (take_bit 32 (uint c - uint sp * 256))"
    by (simp only: uint_div_distrib drop_bit_eq_div) simp
  also have "\<dots> = take_bit 24 (drop_bit 8 (uint c - uint sp * 256))"
    by (simp add: drop_bit_take_bit)
  also have "drop_bit 8 (uint c - uint sp * 256) = uint c div 256 - uint sp"
    by (simp add: drop_bit_eq_div)
  finally have R: "uint (ucast ((c - ucast sp * 256) div 256) :: 16 word)
                     = take_bit 16 (uint c div 256 - uint sp)"
    by (simp add: unsigned_ucast_eq)
  from L R show ?thesis
    by (simp add: word_uint_eq_iff)
qed

section \<open>Operations in the wrong mode\<close>

lemma wrong_mode_new_file:
  "mode s \<noteq> FLASHFAT_NO_MODE \<Longrightarrow> new_file drv s = Some (FLASHFAT_WRONG_MODE, s)"
  by (simp add: new_file_def)

lemma wrong_mode_open_file:
  "mode s \<noteq> FLASHFAT_NO_MODE \<Longrightarrow> open_file drv fi s = Some (FLASHFAT_WRONG_MODE, s)"
  by (simp add: open_file_def)

lemma wrong_mode_write:
  "mode s \<noteq> FLASHFAT_WRITE_MODE \<Longrightarrow>
     FlashFAT_write drv buffer s = Some (FLASHFAT_WRONG_MODE, s)"
  by (simp add: FlashFAT_write_def)

lemma wrong_mode_read:
  "mode s \<noteq> FLASHFAT_READ_MODE \<Longrightarrow>
     read drv len s = (status_code FLASHFAT_WRONG_MODE, [], s)"
  by (simp add: read_def)

lemma wrong_mode_delete_last_file:
  "mode s \<noteq> FLASHFAT_NO_MODE \<Longrightarrow> delete_last_file drv s = Some (FLASHFAT_INVALID_FILE, s)"
  by (simp add: delete_last_file_def)

lemma wrong_mode_delete_all_files:
  "mode s \<noteq> FLASHFAT_NO_MODE \<Longrightarrow> delete_all_files drv s = Some (FLASHFAT_INVALID_FILE, s)"
  by (simp add: delete_all_files_def)

text \<open>
  C5: every operation called in the wrong mode fails with \<^verbatim>\<open>FLASHFAT_WRONG_MODE\<close> and
  changes nothing. The six lemmas above give what each operation does: none changes the
  object, and \<^verbatim>\<open>new_file\<close>, \<^verbatim>\<open>open_file\<close>, \<^verbatim>\<open>write\<close> and \<^verbatim>\<open>read\<close> answer
  \<^verbatim>\<open>FLASHFAT_WRONG_MODE\<close>. The two delete operations answer \<^verbatim>\<open>FLASHFAT_INVALID_FILE\<close>
  instead: here \<^verbatim>\<open>delete_last_file\<close> during a write session and \<^verbatim>\<open>delete_all_files\<close>
  during a read session.
\<close>

theorem C5_delete_in_wrong_mode:
  "delete_last_file dead_flash ((fresh ())\<lparr>mode := FLASHFAT_WRITE_MODE\<rparr>)
     = Some (FLASHFAT_INVALID_FILE, (fresh ())\<lparr>mode := FLASHFAT_WRITE_MODE\<rparr>)
   \<and> delete_all_files dead_flash ((fresh ())\<lparr>mode := FLASHFAT_READ_MODE\<rparr>)
     = Some (FLASHFAT_INVALID_FILE, (fresh ())\<lparr>mode := FLASHFAT_READ_MODE\<rparr>)
   \<and> FLASHFAT_INVALID_FILE \<noteq> FLASHFAT_WRONG_MODE"
  by (simp add: wrong_mode_delete_last_file wrong_mode_delete_all_files fresh_def)

section \<open>The page record of the table\<close>

declare put_entries.simps [simp del] get_entries.simps [simp del]

lemma halves_join:
  "push_bit 8 (ucast (ucast (drop_bit 8 w) :: byte)) OR ucast (ucast w :: byte) = w"
  for w :: "16 word"
  by (rule bit_word_eqI) (auto simp: bit_simps)

lemma put_entries_overrun:
  "i \<le> 49 \<Longrightarrow> 50 \<le> unat (num_files t) \<Longrightarrow> put_entries t i (10 + 5 * i) buffer = None"
proof (induction "49 - i" arbitrary: i buffer)
  case 0
  then have "i = 49" by simp
  with 0 show ?case
    by (subst put_entries.simps) simp
next
  case (Suc k)
  then have "k = 49 - (i + 1)" "i + 1 \<le> 49" by simp_all
  from Suc.hyps(1) [OF this Suc.prems(2)] Suc.prems Suc.hyps(2) show ?case
    by (subst put_entries.simps) (simp add: FLASH_FAT_MAX_FILE_COUNT_def algebra_simps)
qed

lemma get_entries_overrun:
  "i \<le> 49 \<Longrightarrow> 50 \<le> unat (num_files t) \<Longrightarrow> get_entries buffer i (10 + 5 * i) t = None"
proof (induction "49 - i" arbitrary: i t)
  case 0
  then have "i = 49" by simp
  with 0 show ?case
    by (subst get_entries.simps) simp
next
  case (Suc k)
  then have "k = 49 - (i + 1)" "i + 1 \<le> 49" by simp_all
  from Suc.hyps(1) [OF this, of "t\<lparr>files := (files t)(i := (files t i)
                \<lparr>start_page := push_bit 8 (ucast (buffer (10 + 5 * i))) OR ucast (buffer (10 + 5 * i + 1)),
                 page_length := push_bit 8 (ucast (buffer (10 + 5 * i + 2))) OR ucast (buffer (10 + 5 * i + 3)),
                 end_offset := buffer (10 + 5 * i + 4)\<rparr>)\<rparr>"] Suc.prems Suc.hyps(2) show ?case
    by (subst get_entries.simps) (simp add: FLASH_FAT_MAX_FILE_COUNT_def algebra_simps)
qed

text \<open>What the entry loop leaves in the buffer when the table fits.\<close>

lemma put_entries_fits:
  "unat (num_files t) \<le> 49 \<Longrightarrow> i \<le> unat (num_files t) \<Longrightarrow>
     \<exists>b. put_entries t i (10 + 5 * i) buffer = Some b
        \<and> (\<forall>j < 10 + 5 * i. b j = buffer j)
        \<and> (\<forall>j \<ge> 10 + 5 * unat (num_files t). b j = buffer j)
        \<and> (\<forall>k. i \<le> k \<and> k < unat (num_files t) \<longrightarrow>
              map b [10 + 5 * k..<15 + 5 * k] = entry_bytes (files t k))"
proof (induction "unat (num_files t) - i" arbitrary: i buffer)
  case 0
  then show ?case
    by (subst put_entries.simps) auto
next
  case (Suc d)
  let ?b1 = "buffer(10 + 5 * i := ucast (drop_bit 8 (start_page (files t i))),
                     10 + 5 * i + 1 := ucast (start_page (files t i)),
                     10 + 5 * i + 2 := ucast (drop_bit 8 (page_length (files t i))),
                     10 + 5 * i + 3 := ucast (page_length (files t i)),
                     10 + 5 * i + 4 := end_offset (files t i))"
  from Suc have lt: "i < unat (num_files t)" and d: "d = unat (num_files t) - (i + 1)"
    and le: "i + 1 \<le> unat (num_files t)" by simp_all
  from Suc.hyps(1) [OF d Suc.prems(1) le, of ?b1] obtain b where
    b: "put_entries t (i + 1) (10 + 5 * (i + 1)) ?b1 = Some b"
       "\<forall>j < 10 + 5 * (i + 1). b j = ?b1 j"
       "\<forall>j \<ge> 10 + 5 * unat (num_files t). b j = ?b1 j"
       "\<forall>k. i + 1 \<le> k \<and> k < unat (num_files t) \<longrightarrow>
              map b [10 + 5 * k..<15 + 5 * k] = entry_bytes (files t k)"
    by blast
  have step: "put_entries t i (10 + 5 * i) buffer = Some b"
    using lt Suc.prems(1) b(1)
    by (subst put_entries.simps) (simp add: FLASH_FAT_MAX_FILE_COUNT_def algebra_simps)
  have low: "\<forall>j < 10 + 5 * i. b j = buffer j"
    using b(2) by simp
  have high: "\<forall>j \<ge> 10 + 5 * unat (num_files t). b j = buffer j"
    using b(3) lt by simp
  have here: "map b [10 + 5 * i..<15 + 5 * i] = entry_bytes (files t i)"
  proof -
    have "[10 + 5 * i..<15 + 5 * i] = [10 + 5 * i, 10 + 5 * i + 1, 10 + 5 * i + 2, 10 + 5 * i + 3, 10 + 5 * i + 4]"
      by (simp add: upt_rec [of "10 + 5 * i"] upt_rec [of "11 + 5 * i"] upt_rec [of "12 + 5 * i"] upt_rec [of "13 + 5 * i"] upt_rec [of "14 + 5 * i"] upt_rec [of "15 + 5 * i"])
    then show ?thesis
      using b(2) by (simp add: entry_bytes_def)
  qed
  have rest: "\<forall>k. i \<le> k \<and> k < unat (num_files t) \<longrightarrow>
              map b [10 + 5 * k..<15 + 5 * k] = entry_bytes (files t k)"
  proof (intro allI impI)
    fix k assume k: "i \<le> k \<and> k < unat (num_files t)"
    show "map b [10 + 5 * k..<15 + 5 * k] = entry_bytes (files t k)"
    proof (cases "k = i")
      case True
      with here show ?thesis by simp
    next
      case False
      with k b(4) show ?thesis by simp
    qed
  qed
  from step low high rest show ?case by blast
qed

lemma get_entries_fits:
  "unat (num_files t) \<le> 49 \<Longrightarrow> i \<le> unat (num_files t) \<Longrightarrow>
     \<exists>t'. get_entries buffer i (10 + 5 * i) t = Some t'
        \<and> num_files t' = num_files t \<and> file_close_err t' = file_close_err t
        \<and> (\<forall>k. files t' k = (if i \<le> k \<and> k < unat (num_files t)
                               then entry_at buffer (10 + 5 * k) else files t k))"
proof (induction "unat (num_files t) - i" arbitrary: i t)
  case 0
  then show ?case
    by (subst get_entries.simps) auto
next
  case (Suc d)
  let ?t1 = "t\<lparr>files := (files t)(i := (files t i)
                \<lparr>start_page := push_bit 8 (ucast (buffer (10 + 5 * i))) OR ucast (buffer (10 + 5 * i + 1)),
                 page_length := push_bit 8 (ucast (buffer (10 + 5 * i + 2))) OR ucast (buffer (10 + 5 * i + 3)),
                 end_offset := buffer (10 + 5 * i + 4)\<rparr>)\<rparr>"
  from Suc have lt: "i < unat (num_files t)" and d: "d = unat (num_files ?t1) - (i + 1)"
    and le: "i + 1 \<le> unat (num_files ?t1)" and n: "unat (num_files ?t1) \<le> 49" by simp_all
  from Suc.hyps(1) [OF d n le] obtain t' where
    t': "get_entries buffer (i + 1) (10 + 5 * (i + 1)) ?t1 = Some t'"
        "num_files t' = num_files ?t1" "file_close_err t' = file_close_err ?t1"
        "\<forall>k. files t' k = (if i + 1 \<le> k \<and> k < unat (num_files ?t1)
                               then entry_at buffer (10 + 5 * k) else files ?t1 k)"
    by blast
  have step: "get_entries buffer i (10 + 5 * i) t = Some t'"
    using lt Suc.prems(1) t'(1)
    by (subst get_entries.simps) (simp add: FLASH_FAT_MAX_FILE_COUNT_def algebra_simps)
  have ents: "\<forall>k. files t' k = (if i \<le> k \<and> k < unat (num_files t)
                               then entry_at buffer (10 + 5 * k) else files t k)"
  proof
    fix k
    show "files t' k = (if i \<le> k \<and> k < unat (num_files t)
                               then entry_at buffer (10 + 5 * k) else files t k)"
    proof (cases "k = i")
      case True
      with t'(4) lt show ?thesis by (simp add: entry_at_def)
    next
      case False
      with t'(4) show ?thesis by auto
    qed
  qed
  from step t'(2,3) ents show ?case by simp
qed

lemma entry_at_entry_bytes:
  assumes "map b [index..<5 + index] = entry_bytes e"
  shows "entry_at b index = e"
proof -
  have "[index..<5 + index] = [index, index + 1, index + 2, index + 3, index + 4]"
    by (simp add: upt_rec [of index] upt_rec [of "Suc index"] upt_rec [of "Suc (Suc index)"]
        upt_rec [of "Suc (Suc (Suc index))"] upt_rec [of "Suc (Suc (Suc (Suc index)))"])
  with assms show ?thesis
    by (simp add: entry_at_def entry_bytes_def halves_join)
qed

lemma table_buffer_overrun: "50 \<le> unat (num_files t) \<Longrightarrow> table_buffer t = None"
  using put_entries_overrun [of 0 t] by (simp add: table_buffer_def)

lemma table_round_trip:
  assumes "unat (num_files t) \<le> 49"
  shows "\<exists>b t'. table_buffer t = Some b \<and> map b [0..<8] = prefix_bytes
           \<and> get_entries b 0 10 (t0\<lparr>num_files := b 8, file_close_err := b 9\<rparr>) = Some t'
           \<and> num_files t' = num_files t \<and> file_close_err t' = file_close_err t
           \<and> (\<forall>k. files t' k = (if k < unat (num_files t) then files t k else files t0 k))"
proof -
  let ?b0 = "(\<lambda>j. if j < 8 then prefix_bytes ! j else 0)(8 := num_files t, 9 := file_close_err t)"
  from put_entries_fits [OF assms, of 0 ?b0] obtain b where
    b: "table_buffer t = Some b" "\<forall>j < 10. b j = ?b0 j"
       "\<forall>k. k < unat (num_files t) \<longrightarrow> map b [10 + 5 * k..<15 + 5 * k] = entry_bytes (files t k)"
    by (auto simp: table_buffer_def)
  have pre: "map b [0..<8] = prefix_bytes"
    using b(2) by (simp add: prefix_bytes_def upt_rec [of _ 8] eval_nat_numeral)
  have b8: "b 8 = num_files t" and b9: "b 9 = file_close_err t"
    using b(2) by simp_all
  let ?t1 = "t0\<lparr>num_files := b 8, file_close_err := b 9\<rparr>"
  have n1: "unat (num_files ?t1) \<le> 49" using assms b8 by simp
  from get_entries_fits [OF n1, of 0 b] obtain t' where
    t': "get_entries b 0 10 ?t1 = Some t'" "num_files t' = num_files ?t1"
        "file_close_err t' = file_close_err ?t1"
        "\<forall>k. files t' k = (if k < unat (num_files ?t1) then entry_at b (10 + 5 * k) else files ?t1 k)"
    by auto
  have "files t' k = (if k < unat (num_files t) then files t k else files t0 k)" for k
  proof (cases "k < unat (num_files t)")
    case True
    with b(3) have "map b [10 + 5 * k..<5 + (10 + 5 * k)] = entry_bytes (files t k)"
      by (simp add: add.commute)
    from entry_at_entry_bytes [OF this] True t'(4) b8 show ?thesis by simp
  next
    case False
    with t'(4) b8 show ?thesis by simp
  qed
  with b(1) pre t'(1,2,3) b8 b9 show ?thesis by auto
qed

lemma table_buffer_fits: "unat (num_files t) \<le> 49 \<Longrightarrow> \<exists>b. table_buffer t = Some b"
  using put_entries_fits [of t 0 "(\<lambda>j. if j < 8 then prefix_bytes ! j else 0)(8 := num_files t, 9 := file_close_err t)"]
  by (auto simp: table_buffer_def)

lemma write_file_allocation_table_fits:
  assumes "unat (num_files t) \<le> 49"
  shows "\<exists>f'. write_file_allocation_table drv t f = Some (FLASHFAT_OK, f')"
proof -
  from table_buffer_fits [OF assms] obtain b where "table_buffer t = Some b" ..
  then show ?thesis
    by (simp add: write_file_allocation_table_def Let_def)
qed

lemma table_buffer_content:
  assumes "unat (num_files t) \<le> 49" and "table_buffer t = Some b"
  shows "map b [0..<8] = prefix_bytes" and "b 8 = num_files t" and "b 9 = file_close_err t"
    and "\<forall>k < unat (num_files t). entry_at b (10 + 5 * k) = files t k"
proof -
  let ?b0 = "(\<lambda>j. if j < 8 then prefix_bytes ! j else 0)(8 := num_files t, 9 := file_close_err t)"
  from put_entries_fits [OF assms(1), of 0 ?b0] assms(2) have
    b: "\<forall>j < 10. b j = ?b0 j"
       "\<forall>k. k < unat (num_files t) \<longrightarrow> map b [10 + 5 * k..<15 + 5 * k] = entry_bytes (files t k)"
    by (auto simp: table_buffer_def)
  show "map b [0..<8] = prefix_bytes"
    using b(1) by (simp add: prefix_bytes_def upt_rec [of _ 8] eval_nat_numeral)
  show "b 8 = num_files t" "b 9 = file_close_err t"
    using b(1) by simp_all
  show "\<forall>k < unat (num_files t). entry_at b (10 + 5 * k) = files t k"
  proof (intro allI impI)
    fix k assume "k < unat (num_files t)"
    with b(2) have "map b [10 + 5 * k..<5 + (10 + 5 * k)] = entry_bytes (files t k)"
      by (simp add: add.commute)
    from entry_at_entry_bytes [OF this] show "entry_at b (10 + 5 * k) = files t k" .
  qed
qed

text \<open>
  C3: the codec takes any table of 0 to 254 files to and from the 256-byte page record
  without leaving the buffer, and decoding recovers the table. The record holds 10 bytes
  and 5 bytes for each file, so it holds 49 files: up to there the buffer is built and
  read back as the claim says (\<open>table_round_trip\<close>). From 50 files on the entry loop
  stores past \<^verbatim>\<open>buffer[255]\<close> (\<open>table_buffer_overrun\<close>); here at 50 files, which
  \<^verbatim>\<open>new_file\<close> admits, its bound being 254.
\<close>

theorem C3_fifty_files_overrun:
  "unat (num_files ((table (fresh ()))\<lparr>num_files := 50\<rparr>)) < FLASH_FAT_MAX_FILE_COUNT
   \<and> table_buffer ((table (fresh ()))\<lparr>num_files := 50\<rparr>) = None
   \<and> get_entries (\<lambda>j. 0) 0 10 ((table (fresh ()))\<lparr>num_files := 50\<rparr>) = None"
  using table_buffer_overrun [of "(table (fresh ()))\<lparr>num_files := 50\<rparr>"]
    get_entries_overrun [of 0 "(table (fresh ()))\<lparr>num_files := 50\<rparr>" "\<lambda>j. 0"]
  by (simp add: FLASH_FAT_MAX_FILE_COUNT_def)

section \<open>Transport failures\<close>

lemma write_loop_returns:
  "unat (write_buffer_index s) < FLASH_FAT_FILE_BUFFER \<Longrightarrow>
     \<exists>s'. write_loop drv bs s = Some s' \<and> mode s' = mode s
          \<and> unat (write_buffer_index s') < FLASH_FAT_FILE_BUFFER"
proof (induction bs arbitrary: s)
  case Nil
  then show ?case by simp
next
  case (Cons b bs)
  let ?s1 = "s\<lparr>write_buffer := (write_buffer s)(unat (write_buffer_index s) := b),
                write_buffer_index := write_buffer_index s + 1\<rparr>"
  let ?s2 = "if write_buffer_index ?s1 \<ge> of_nat FLASH_FAT_FILE_BUFFER
             then flush_buffer drv ?s1 else ?s1"
  have small: "unat (write_buffer_index ?s2) < FLASH_FAT_FILE_BUFFER"
    using Cons.prems
    by (auto simp: FLASH_FAT_FILE_BUFFER_def word_le_nat_alt unat_word_ariths)
  have m: "mode ?s2 = mode s" by simp
  from Cons.IH [OF small] obtain s' where
    "write_loop drv bs ?s2 = Some s'" "mode s' = mode ?s2"
    "unat (write_buffer_index s') < FLASH_FAT_FILE_BUFFER" by blast
  with Cons.prems m show ?case
    by (simp add: Let_def)
qed

lemma write_never_reports_failure:
  assumes "mode s = FLASHFAT_WRITE_MODE"
    and "unat (write_buffer_index s) < FLASH_FAT_FILE_BUFFER"
  shows "\<exists>s'. FlashFAT_write drv buffer s = Some (FLASHFAT_OK, s') \<and> mode s' = FLASHFAT_WRITE_MODE"
  using write_loop_returns [OF assms(2), of drv buffer] assms(1)
  by (auto simp: FlashFAT_write_def)

text \<open>
  C6: a failed \<^verbatim>\<open>erase_sector\<close> or \<^verbatim>\<open>write_page\<close> makes \<^verbatim>\<open>write\<close> abort with a transport
  error. \<^verbatim>\<open>write\<close> drops the status of both calls and answers \<^verbatim>\<open>FLASHFAT_OK\<close> in every
  write session (\<open>write_never_reports_failure\<close>). Here the 512th byte of a buffer goes
  to a device on which every call fails: the erase-ahead and both page programs fail,
  the cursor moves on by 512, the buffer is emptied, and the answer is \<^verbatim>\<open>FLASHFAT_OK\<close>.
\<close>

theorem C6_write_hides_failure:
  "fst (erase_sector dead_flash 8192 ()) = W25Q64FV_FAILED
   \<and> fst (write_page dead_flash 7680 (write_buffer full_but_one) ()) = W25Q64FV_FAILED
   \<and> FlashFAT_write dead_flash [7] full_but_one
       = Some (FLASHFAT_OK,
           full_but_one\<lparr>write_buffer := (write_buffer full_but_one)(511 := 7),
             write_buffer_index := 0, erase_index := 12287, current_index := 8192\<rparr>)"
  by (simp add: FlashFAT_write_def flush_buffer_pages check_erase_def write_one_page_def
      FLASH_FAT_FILE_BUFFER_def full_but_one_def fresh_def dead_flash_def)

lemma write_file_allocation_table_status:
  "write_file_allocation_table drv t f = Some (r, f') \<Longrightarrow> r = FLASHFAT_OK"
  by (auto simp: write_file_allocation_table_def Let_def split: option.splits)

text \<open>
  C7: storing the table answers Ok only when the erase and the program succeed. The
  function tests the status of both calls and then returns \<^verbatim>\<open>FLASHFAT_OK\<close> whatever it
  was (\<open>write_file_allocation_table_status\<close>); here on the device on which every call
  fails.
\<close>

theorem C7_store_hides_failure:
  "fst (erase_sector dead_flash 0 ()) = W25Q64FV_FAILED
   \<and> fst (write_page dead_flash 0 (the (table_buffer (table (fresh ())))) ()) = W25Q64FV_FAILED
   \<and> write_file_allocation_table dead_flash (table (fresh ())) () = Some (FLASHFAT_OK, ())"
  by (simp add: write_file_allocation_table_def table_buffer_def put_entries.simps
      dead_flash_def fresh_def)

section \<open>Opening the engine\<close>






section \<open>Allocation of a new file\<close>

lemma unat_last_used_address: "unat (last_used_address t) = last_end t"
proof (cases "num_files t = 0")
  case True
  then show ?thesis by (simp add: last_used_address_def last_end_def)
next
  case False
  then show ?thesis
    by (simp only: last_used_address_def last_end_def entry_end_def Let_def unat_extent if_False)
qed

lemma next_start_address_sector:
  assumes "last_end t < 2 ^ 24 - 4096"
  shows "unat (next_start_address t) = (last_end t div 4096 + 1) * 4096"
proof -
  from assms have "unat (last_used_address t) < 2 ^ 32 - 4096"
    by (simp add: unat_last_used_address)
  from unat_next_sector [OF this] show ?thesis
    by (simp add: next_start_address_def unat_last_used_address)
qed

lemma new_file_entry_begin:
  assumes "last_end t < 2 ^ 24 - 4096"
  shows "entry_begin (e\<lparr>start_page := ucast (drop_bit 8 (next_start_address t))\<rparr>)
           = (last_end t div 4096 + 1) * 4096"
proof -
  let ?a = "(last_end t div 4096 + 1) * 4096"
  have a: "unat (next_start_address t) = ?a"
    by (rule next_start_address_sector [OF assms])
  have "?a < 2 ^ 24" using assms by simp
  with a have "unat (next_start_address t) < 2 ^ 24" by simp
  from unat_page_of [OF this] a
  have "entry_begin (e\<lparr>start_page := ucast (drop_bit 8 (next_start_address t))\<rparr>) = ?a div 256 * 256"
    by (simp add: entry_begin_def)
  also have "?a div 256 * 256 = ?a" by simp
  finally show ?thesis .
qed

lemma unat_succ_files:
  "unat n < FLASH_FAT_MAX_FILE_COUNT \<Longrightarrow> unat (n + 1) = unat n + 1" for n :: byte
  by (simp add: unat_word_ariths FLASH_FAT_MAX_FILE_COUNT_def)

lemma file_index_of_new_file:
  fixes n :: byte
  assumes "unat n < FLASH_FAT_MAX_FILE_COUNT"
  shows "(ucast (n + 1) :: uint) - 1 = ucast n"
proof -
  have u: "unat (ucast (n + 1) :: uint) = unat n + 1"
    by (simp add: unat_succ_files [OF assms])
  then have "(1 :: uint) \<le> ucast (n + 1)"
    by (simp add: word_le_nat_alt)
  from unat_sub [OF this] u have "unat ((ucast (n + 1) :: uint) - 1) = unat (ucast n :: uint)"
    by simp
  then show ?thesis
    by (simp only: word_unat_eq_iff)
qed

lemma ucast_ucast_byte: "(ucast (ucast n :: uint) :: byte) = n" for n :: byte
  by (rule bit_word_eqI) (auto simp: bit_simps)

lemma new_file_returns:
  assumes "mode s = FLASHFAT_NO_MODE" and "unat (num_files (table s)) < 49"
  shows "\<exists>f'. new_file drv s = Some (FLASHFAT_OK,
           s\<lparr>flash := f',
             table := (table s)\<lparr>num_files := num_files (table s) + 1,
                 files := (files (table s))(unat (num_files (table s)) :=
                    (files (table s) (unat (num_files (table s))))
                      \<lparr>start_page := ucast (drop_bit 8 (next_start_address (table s)))\<rparr>),
                 file_close_err := num_files (table s)\<rparr>,
             mode := FLASHFAT_WRITE_MODE,
             erase_index := next_start_address (table s) + 4095,
             current_index := next_start_address (table s),
             file_index := ucast (num_files (table s))\<rparr>)"
proof -
  let ?n = "num_files (table s)"
  let ?t3 = "(table s)\<lparr>num_files := num_files (table s) + 1,
                 files := (files (table s))(unat (num_files (table s)) :=
                    (files (table s) (unat (num_files (table s))))
                      \<lparr>start_page := ucast (drop_bit 8 (next_start_address (table s)))\<rparr>),
                 file_close_err := num_files (table s)\<rparr>"
  from assms(2) have n: "unat ?n < FLASH_FAT_MAX_FILE_COUNT"
    by (simp add: FLASH_FAT_MAX_FILE_COUNT_def)
  have "unat (num_files ?t3) \<le> 49"
    using assms(2) unat_succ_files [OF n] by simp
  from write_file_allocation_table_fits [OF this, where drv = drv
      and f = "snd (erase_sector drv (next_start_address (table s))
                 (snd (wait_until_free drv (flash s))))"] obtain f' where
    "write_file_allocation_table drv ?t3
       (snd (erase_sector drv (next_start_address (table s))
          (snd (wait_until_free drv (flash s))))) = Some (FLASHFAT_OK, f')"
    by blast
  with assms(1) n show ?thesis
    by (intro exI [of _ f'])
       (simp add: new_file_def Let_def file_index_of_new_file ucast_ucast_byte)
qed

text \<open>From the 50th file on, the table that \<^verbatim>\<open>new_file\<close> stores does not fit its page record.\<close>

lemma new_file_overrun:
  assumes "mode s = FLASHFAT_NO_MODE"
    and "49 \<le> unat (num_files (table s))"
    and "unat (num_files (table s)) < FLASH_FAT_MAX_FILE_COUNT"
  shows "new_file drv s = None"
proof -
  let ?t3 = "(table s)\<lparr>num_files := num_files (table s) + 1,
                 files := (files (table s))(unat (num_files (table s)) :=
                    (files (table s) (unat (num_files (table s))))
                      \<lparr>start_page := ucast (drop_bit 8 (next_start_address (table s)))\<rparr>),
                 file_close_err := num_files (table s)\<rparr>"
  have "50 \<le> unat (num_files ?t3)"
    using assms(2) unat_succ_files [OF assms(3)] by simp
  then have "table_buffer ?t3 = None"
    by (rule table_buffer_overrun)
  with assms(1,3) show ?thesis
    by (simp add: new_file_def Let_def write_file_allocation_table_def
        file_index_of_new_file ucast_ucast_byte)
qed




section \<open>Closing a write session\<close>

declare close_pages.simps [simp del]

lemma close_pages_done: "n \<le> p \<Longrightarrow> close_pages drv n p s = (True, s)"
  by (subst close_pages.simps) simp

lemma close_pages_step:
  assumes "p < n" and "fst (write_page drv (current_index s) (\<lambda>j. write_buffer s (p * 256 + j))
             (snd (wait_until_free drv (snd (enable_writing drv (snd (wait_until_free drv (flash s)))))))) = W25Q64FV_OK"
  shows "close_pages drv n p s =
           close_pages drv n (p + 1)
             (s\<lparr>flash := snd (write_page drv (current_index s) (\<lambda>j. write_buffer s (p * 256 + j))
                  (snd (wait_until_free drv (snd (enable_writing drv (snd (wait_until_free drv (flash s)))))))),
                current_index := current_index s + bytes_to_write n p (write_buffer_index s)\<rparr>)"
  using assms by (subst close_pages.simps) (simp add: Let_def case_prod_beta)

lemma close_pages_failed:
  assumes "p < n" and "fst (write_page drv (current_index s) (\<lambda>j. write_buffer s (p * 256 + j))
             (snd (wait_until_free drv (snd (enable_writing drv (snd (wait_until_free drv (flash s)))))))) \<noteq> W25Q64FV_OK"
  shows "close_pages drv n p s =
           (False, s\<lparr>flash := snd (write_page drv (current_index s) (\<lambda>j. write_buffer s (p * 256 + j))
                  (snd (wait_until_free drv (snd (enable_writing drv (snd (wait_until_free drv (flash s))))))))\<rparr>)"
  using assms by (subst close_pages.simps) (simp add: Let_def case_prod_beta)

lemma pages_to_write:
  assumes "unat (w :: uint) \<le> 512"
  shows "unat ((w + 255) div 256) = (unat w + 255) div 256"
proof -
  have "unat (w + 255) = unat w + 255"
    using assms by (simp add: unat_word_ariths)
  then show ?thesis by (simp add: unat_div)
qed

lemma last_page_bytes:
  fixes w :: uint
  assumes "0 < unat w" and "unat w \<le> 256"
  shows "bytes_to_write 1 0 w = w"
proof (cases "unat w = 256")
  case True
  then have "w = 256" by (simp add: word_unat_eq_iff)
  then show ?thesis by (simp add: bytes_to_write_def)
next
  case False
  with assms have "unat (w mod 256) = unat w" "unat w \<noteq> 0"
    by (simp_all add: unat_mod)
  then have "w mod 256 = w" "w \<noteq> 0"
    by (auto simp: word_unat_eq_iff)
  then show ?thesis by (simp add: bytes_to_write_def)
qed

lemma last_page_bytes2:
  fixes w :: uint
  assumes "256 < unat w" and "unat w \<le> 512"
  shows "256 + bytes_to_write 2 1 w = w"
proof (cases "unat w = 512")
  case True
  then have "w = 512" by (simp add: word_unat_eq_iff)
  then show ?thesis by (simp add: bytes_to_write_def)
next
  case False
  with assms have m: "unat (w mod 256) = unat w - 256"
    by (simp add: unat_mod mod_if)
  with assms have "unat (w mod 256) \<noteq> 0" by simp
  then have nz: "w mod 256 \<noteq> 0" by (auto simp: word_unat_eq_iff)
  have "unat (256 + w mod 256) = unat w"
    using m assms by (simp add: unat_word_ariths)
  then have "256 + w mod 256 = w" by (simp only: word_unat_eq_iff)
  with nz show ?thesis by (simp add: bytes_to_write_def)
qed

lemma close_pages_completed:
  assumes pos: "0 < unat (write_buffer_index s)"
    and le: "unat (write_buffer_index s) \<le> FLASH_FAT_FILE_BUFFER"
    and fin: "close_pages drv (unat ((write_buffer_index s + 255) div 256)) 0 s = (True, s3)"
  shows "\<exists>f'. s3 = s\<lparr>flash := f', current_index := current_index s + write_buffer_index s\<rparr>"
proof (cases "unat (write_buffer_index s) \<le> 256")
  case True
  with pos le have n: "unat ((write_buffer_index s + 255) div 256) = 1"
    by (simp add: pages_to_write FLASH_FAT_FILE_BUFFER_def)
  let ?w = "write_page drv (current_index s) (\<lambda>j. write_buffer s (0 * 256 + j))
              (snd (wait_until_free drv (snd (enable_writing drv (snd (wait_until_free drv (flash s)))))))"
  show ?thesis
  proof (cases "fst ?w = W25Q64FV_OK")
    case ok: True
    from close_pages_step [of 0 1 drv s, OF _ ok] fin
    have "s3 = s\<lparr>flash := snd ?w,
                  current_index := current_index s + bytes_to_write 1 0 (write_buffer_index s)\<rparr>"
      by (simp add: n close_pages_done)
    then show ?thesis
      by (simp only: last_page_bytes [OF pos True]) (rule exI, rule refl)
  next
    case False
    from close_pages_failed [of 0 1 drv s, OF _ this] fin show ?thesis
      by (simp add: n)
  qed
next
  case False
  with le have n: "unat ((write_buffer_index s + 255) div 256) = 2"
    by (simp add: pages_to_write FLASH_FAT_FILE_BUFFER_def)
  from False le have w: "256 < unat (write_buffer_index s)" "unat (write_buffer_index s) \<le> 512"
    by (simp_all add: FLASH_FAT_FILE_BUFFER_def)
  have first: "bytes_to_write 2 0 (write_buffer_index s) = 256"
    by (simp add: bytes_to_write_def)
  let ?w = "write_page drv (current_index s) (\<lambda>j. write_buffer s (0 * 256 + j))
              (snd (wait_until_free drv (snd (enable_writing drv (snd (wait_until_free drv (flash s)))))))"
  let ?s1 = "s\<lparr>flash := snd ?w, current_index := current_index s + 256\<rparr>"
  let ?v = "write_page drv (current_index ?s1) (\<lambda>j. write_buffer ?s1 (1 * 256 + j))
              (snd (wait_until_free drv (snd (enable_writing drv (snd (wait_until_free drv (flash ?s1)))))))"
  show ?thesis
  proof (cases "fst ?w = W25Q64FV_OK")
    case ok: True
    from close_pages_step [of 0 2 drv s, OF _ ok]
    have one: "close_pages drv 2 0 s = close_pages drv 2 1 ?s1"
      by (simp add: first)
    show ?thesis
    proof (cases "fst ?v = W25Q64FV_OK")
      case True
      from close_pages_step [of 1 2 drv ?s1, OF _ this] fin
      have "s3 = s\<lparr>flash := snd ?v,
                    current_index := current_index s
                      + (256 + bytes_to_write 2 1 (write_buffer_index s))\<rparr>"
        by (simp add: n one close_pages_done add.assoc)
      then show ?thesis
        by (simp only: last_page_bytes2 [OF w]) (rule exI, rule refl)
    next
      case False
      from close_pages_failed [of 1 2 drv ?s1, OF _ this] fin show ?thesis
        by (simp add: n one)
    qed
  next
    case False
    from close_pages_failed [of 0 2 drv s, OF _ this] fin show ?thesis
      by (simp add: n)
  qed
qed

lemma close_out_table_eq:
  "close_out_table s =
     (table s)\<lparr>file_close_err := FLASH_FAT_NO_ERROR_FILE,
        files := (files (table s))(unat (file_index s) := (files (table s) (unat (file_index s)))
          \<lparr>page_length := ucast ((current_index s
                 - ucast (start_page (files (table s) (unat (file_index s)))) * 256) div 256),
           end_offset := ucast (write_buffer_index s mod 256)\<rparr>)\<rparr>"
  by (simp add: close_out_table_def Let_def page_length_formula)

lemma close_out_returns:
  assumes "unat (file_index s) < FLASH_FAT_MAX_FILE_COUNT" and "unat (num_files (table s)) \<le> 49"
  shows "\<exists>f'. write_file_allocation_table drv (close_out_table s) (flash s) = Some (FLASHFAT_OK, f')
           \<and> close_out drv s
               = Some (FLASHFAT_OK, reset_session (s\<lparr>table := close_out_table s, flash := f'\<rparr>))"
proof -
  have "unat (num_files (close_out_table s)) \<le> 49"
    using assms(2) by (simp add: close_out_table_eq)
  from write_file_allocation_table_fits [OF this, where drv = drv and f = "flash s"]
  obtain f' where "write_file_allocation_table drv (close_out_table s) (flash s) = Some (FLASHFAT_OK, f')"
    by blast
  with assms(1) show ?thesis
    by (simp add: close_out_def)
qed

lemma close_out_stores:
  assumes "unat (file_index s) < FLASH_FAT_MAX_FILE_COUNT" and "unat (num_files (table s)) \<le> 49"
  shows "\<exists>b. table_buffer (close_out_table s) = Some b
           \<and> close_out drv s
               = Some (FLASHFAT_OK, reset_session (s\<lparr>table := close_out_table s,
                    flash := program_table_page drv b (flash s)\<rparr>))"
proof -
  have "unat (num_files (close_out_table s)) \<le> 49"
    using assms(2) by (simp add: close_out_table_eq)
  from table_buffer_fits [OF this] obtain b where "table_buffer (close_out_table s) = Some b"
    by blast
  with assms(1) show ?thesis
    by (simp add: close_out_def write_file_allocation_table_def program_table_page_def Let_def)
qed

lemma close_file_after_flush:
  assumes "mode s = FLASHFAT_WRITE_MODE" and "unat (write_buffer_index s) \<le> FLASH_FAT_FILE_BUFFER"
  shows "close_file drv s =
           (if fst (flush_of_close drv s) then close_out drv (snd (flush_of_close drv s))
            else Some (FLASHFAT_FLASH_FAILURE, snd (flush_of_close drv s)))"
  using assms
  by (simp add: close_file_def flush_of_close_def Let_def split: prod.splits bool.splits)

lemma flush_of_close_completed:
  assumes "unat (write_buffer_index s) \<le> FLASH_FAT_FILE_BUFFER" and "fst (flush_of_close drv s)"
  shows "\<exists>f' wb e. snd (flush_of_close drv s)
           = s\<lparr>flash := f', write_buffer := wb, erase_index := e,
               current_index := current_index s + write_buffer_index s\<rparr>"
proof (cases "write_buffer_index s = 0")
  case True
  then show ?thesis
    unfolding flush_of_close_def
    by (intro exI [of _ "flash s"] exI [of _ "write_buffer s"] exI [of _ "erase_index s"]) simp
next
  case False
  let ?s1 = "s\<lparr>write_buffer := (\<lambda>j. if unat (write_buffer_index s) \<le> j \<and> j < FLASH_FAT_FILE_BUFFER
                                     then 255 else write_buffer s j)\<rparr>"
  let ?s2 = "check_erase drv ?s1"
  from False have pos: "0 < unat (write_buffer_index ?s2)"
    by (simp add: unat_gt_0)
  have le: "unat (write_buffer_index ?s2) \<le> FLASH_FAT_FILE_BUFFER"
    using assms(1) by simp
  obtain s3 where cp: "close_pages drv (unat ((write_buffer_index s + 255) div 256)) 0 ?s2 = (True, s3)"
    using assms(2) False by (cases "close_pages drv (unat ((write_buffer_index s + 255) div 256)) 0 ?s2")
      (simp add: flush_of_close_def)
  then have "close_pages drv (unat ((write_buffer_index ?s2 + 255) div 256)) 0 ?s2 = (True, s3)"
    by simp
  from close_pages_completed [OF pos le this] obtain f' where
    "s3 = ?s2\<lparr>flash := f', current_index := current_index ?s2 + write_buffer_index ?s2\<rparr>"
    by blast
  then have "s3 = s\<lparr>flash := f', write_buffer := write_buffer ?s2, erase_index := erase_index ?s2,
                     current_index := current_index s + write_buffer_index s\<rparr>"
    by (simp add: check_erase_def)
  with cp False show ?thesis
    by (simp add: flush_of_close_def) blast
qed

text \<open>
  C9 (as amended): in write mode, when no page program of the flush fails, the buffer
  index is within the buffer, the file index within the array and the table within its
  page record, \<^verbatim>\<open>close_file\<close> answers \<^verbatim>\<open>FLASHFAT_OK\<close>. The entry of the session gets, in
  the 32-bit arithmetic of the cursor and cut to its 16-bit field,
  \<open>page_length = (cursor - start_page * 256) div 256\<close>, where the cursor is the one
  after the flush, that is the cursor before plus the bytes in the buffer, and
  \<open>end_offset = write_buffer_index mod 256\<close>. The crash marker becomes 255. The table is
  put on the device: what the close leaves on the device is what the flush left, with
  sector 0 erased and then the page record of this very table programmed at address 0
  (the statuses of these two calls are not looked at). Mode, buffer index, file index,
  erase index and cursor are reset.
\<close>

theorem C9_close_file_finalizes:
  assumes "mode s = FLASHFAT_WRITE_MODE"
    and "unat (write_buffer_index s) \<le> FLASH_FAT_FILE_BUFFER"
    and "unat (file_index s) < FLASH_FAT_MAX_FILE_COUNT"
    and "unat (num_files (table s)) \<le> 49"
    and "fst (flush_of_close drv s)"
  shows "\<exists>s' b. close_file drv s = Some (FLASHFAT_OK, s')
           \<and> mode s' = FLASHFAT_NO_MODE \<and> write_buffer_index s' = 0 \<and> file_index s' = 0
           \<and> erase_index s' = 0 \<and> current_index s' = 0
           \<and> table s' =
               (table s)\<lparr>file_close_err := 255,
                 files := (files (table s))(unat (file_index s) :=
                   (files (table s) (unat (file_index s)))
                     \<lparr>page_length := ucast ((current_index s + write_buffer_index s
                          - ucast (start_page (files (table s) (unat (file_index s)))) * 256) div 256),
                      end_offset := ucast (write_buffer_index s mod 256)\<rparr>)\<rparr>
           \<and> table_buffer (table s') = Some b
           \<and> flash s' = program_table_page drv b (flash (snd (flush_of_close drv s)))"
proof -
  let ?s3 = "snd (flush_of_close drv s)"
  from flush_of_close_completed [OF assms(2,5)] obtain f' wb e where
    s3: "?s3 = s\<lparr>flash := f', write_buffer := wb, erase_index := e,
                  current_index := current_index s + write_buffer_index s\<rparr>"
    by blast
  have "unat (file_index ?s3) < FLASH_FAT_MAX_FILE_COUNT" "unat (num_files (table ?s3)) \<le> 49"
    using assms(3,4) by (simp_all add: s3)
  from close_out_stores [OF this, of drv] obtain b where
    b: "table_buffer (close_out_table ?s3) = Some b"
    and c: "close_out drv ?s3
              = Some (FLASHFAT_OK, reset_session (?s3\<lparr>table := close_out_table ?s3,
                   flash := program_table_page drv b (flash ?s3)\<rparr>))"
    by blast
  let ?s' = "reset_session (?s3\<lparr>table := close_out_table ?s3,
               flash := program_table_page drv b (flash ?s3)\<rparr>)"
  have r: "close_file drv s = Some (FLASHFAT_OK, ?s')"
    using assms(5) by (simp only: close_file_after_flush [OF assms(1,2)] c if_True)
  have t: "table ?s' = close_out_table ?s3"
    by (simp add: reset_session_def)
  have q: "close_out_table ?s3 =
             (table s)\<lparr>file_close_err := 255,
               files := (files (table s))(unat (file_index s) :=
                 (files (table s) (unat (file_index s)))
                   \<lparr>page_length := ucast ((current_index s + write_buffer_index s
                        - ucast (start_page (files (table s) (unat (file_index s)))) * 256) div 256),
                    end_offset := ucast (write_buffer_index s mod 256)\<rparr>)\<rparr>"
    unfolding close_out_table_eq by (simp add: s3 FLASH_FAT_NO_ERROR_FILE_def)
  have "mode ?s' = FLASHFAT_NO_MODE" "write_buffer_index ?s' = 0" "file_index ?s' = 0"
    "erase_index ?s' = 0" "current_index ?s' = 0"
    "flash ?s' = program_table_page drv b (flash ?s3)"
    by (simp_all add: reset_session_def)
  with r t q b show ?thesis
    by (intro exI [of _ ?s'] exI [of _ b]) (simp only: simp_thms)
qed

text \<open>
  The claim as stated has \<^verbatim>\<open>close_file\<close> finalize and return to Closed from every write
  session, and reset all session fields. When a page program of the flush fails,
  \<^verbatim>\<open>close_file\<close> returns \<^verbatim>\<open>FLASHFAT_FLASH_FAILURE\<close> at once: the mode stays
  \<^verbatim>\<open>FLASHFAT_WRITE_MODE\<close>, the table is not touched. And a close that succeeds leaves
  \<^verbatim>\<open>_end_index\<close> as it was.
\<close>

theorem C9_close_file_counterexample:
  "mode full_but_one = FLASHFAT_WRITE_MODE
   \<and> close_file dead_flash full_but_one \<noteq> None
   \<and> fst (the (close_file dead_flash full_but_one)) = FLASHFAT_FLASH_FAILURE
   \<and> mode (snd (the (close_file dead_flash full_but_one))) = FLASHFAT_WRITE_MODE
   \<and> table (snd (the (close_file dead_flash full_but_one))) = table full_but_one
   \<and> mode second_session = FLASHFAT_WRITE_MODE
   \<and> close_file nor_flash second_session \<noteq> None
   \<and> fst (the (close_file nor_flash second_session)) = FLASHFAT_OK
   \<and> mode (snd (the (close_file nor_flash second_session))) = FLASHFAT_NO_MODE
   \<and> end_index (snd (the (close_file nor_flash second_session))) = 5096"
proof -
  have a: "close_file dead_flash full_but_one
             = Some (FLASHFAT_FLASH_FAILURE,
                 full_but_one\<lparr>write_buffer := (\<lambda>j. if 511 \<le> j \<and> j < 512 then 255
                                                  else write_buffer full_but_one j),
                   erase_index := 12287\<rparr>)"
    by (simp add: close_file_def close_pages_failed check_erase_def FLASH_FAT_FILE_BUFFER_def
        full_but_one_def fresh_def dead_flash_def cong: if_cong)
  have "unat (file_index second_session) < FLASH_FAT_MAX_FILE_COUNT"
    "unat (num_files (table second_session)) \<le> 49"
    by (simp_all add: second_session_def fresh_def FLASH_FAT_MAX_FILE_COUNT_def)
  from close_out_returns [OF this, of nor_flash] obtain f' where
    "close_out nor_flash second_session
       = Some (FLASHFAT_OK, reset_session
           (second_session\<lparr>table := close_out_table second_session, flash := f'\<rparr>))"
    by blast
  then have b: "close_file nor_flash second_session
       = Some (FLASHFAT_OK, reset_session
           (second_session\<lparr>table := close_out_table second_session, flash := f'\<rparr>))"
    by (simp add: close_file_def second_session_def fresh_def)
  show ?thesis
    by (simp add: a b reset_session_def) (simp add: full_but_one_def second_session_def fresh_def)
qed

section \<open>Reading\<close>

declare read_loop.simps [simp del]

lemma read_loop_end: "read_loop drv 0 s out = (True, s, out)"
  by (subst read_loop.simps) simp

lemma read_loop_failed:
  assumes "len \<noteq> 0" and "fst (fst (read_page drv (current_index s) (flash s))) \<noteq> W25Q64FV_OK"
  shows "read_loop drv len s out
           = (False, s\<lparr>flash := snd (read_page drv (current_index s) (flash s)),
                       current_index := current_index s + len\<rparr>, out)"
  using assms by (subst read_loop.simps) (simp add: Let_def case_prod_beta word_greater_zero_iff)

lemma read_loop_page:
  assumes "255 < len" and "fst (fst (read_page drv (current_index s) (flash s))) = W25Q64FV_OK"
  shows "read_loop drv len s out
           = read_loop drv (len - 256)
               (s\<lparr>flash := snd (read_page drv (current_index s) (flash s)),
                  current_index := current_index s + len\<rparr>)
               (out @ map (snd (fst (read_page drv (current_index s) (flash s)))) [0..<256])"
proof -
  from assms(1) have "0 < len"
    by (simp add: word_less_nat_alt)
  with assms show ?thesis
    by (subst read_loop.simps) (simp add: Let_def case_prod_beta)
qed

lemma read_loop_rest:
  assumes "len \<noteq> 0" and "\<not> 255 < len"
    and "fst (fst (read_page drv (current_index s) (flash s))) = W25Q64FV_OK"
  shows "read_loop drv len s out
           = (True, s\<lparr>flash := snd (read_page drv (current_index s) (flash s)),
                       current_index := current_index s + len\<rparr>,
              out @ map (snd (fst (read_page drv (current_index s) (flash s)))) [0..<unat len])"
  using assms
  by (subst read_loop.simps) (simp add: Let_def case_prod_beta word_greater_zero_iff read_loop_end)

text \<open>A request that stays within one page moves the cursor by what it delivers.\<close>

lemma read_within_page:
  assumes "mode s = FLASHFAT_READ_MODE" and "peek s \<noteq> 0"
    and "fst (fst (read_page drv (current_index s) (flash s))) = W25Q64FV_OK"
    and "len1 = (if current_index s + len > end_index s
                 then end_index s - current_index s else len)"
    and "len1 \<le> 256"
  shows "fst (read drv len s) = len1"
    and "fst (snd (read drv len s))
           = map (snd (fst (read_page drv (current_index s) (flash s)))) [0..<unat len1]"
    and "current_index (snd (snd (read drv len s))) = current_index s + len1"
    and "peek (snd (snd (read drv len s))) = peek s - len1"
proof -
  let ?page = "snd (fst (read_page drv (current_index s) (flash s)))"
  let ?s1 = "s\<lparr>flash := snd (read_page drv (current_index s) (flash s)),
               current_index := current_index s + len1\<rparr>"
  have loop: "read_loop drv len1 s [] = (True, (if len1 = 0 then s else ?s1), map ?page [0..<unat len1])"
  proof (cases "len1 = 0")
    case True
    then show ?thesis by (simp add: read_loop_end)
  next
    case nz: False
    show ?thesis
    proof (cases "255 < len1")
      case True
      with assms(5) have "unat len1 = 256"
        by (simp add: word_less_nat_alt word_le_nat_alt)
      then have "len1 = 256"
        by (simp add: word_unat_eq_iff)
      with assms(3) show ?thesis
        by (simp add: read_loop_page read_loop_end)
    next
      case False
      with nz assms(3) show ?thesis
        by (simp add: read_loop_rest)
    qed
  qed
  have r: "read drv len s = (len1, map ?page [0..<unat len1], (if len1 = 0 then s else ?s1))"
    unfolding read_def Let_def assms(4) [symmetric] using assms(1,2) by (simp add: loop)
  show "fst (read drv len s) = len1" 
    and "fst (snd (read drv len s)) = map ?page [0..<unat len1]"
    and "current_index (snd (snd (read drv len s))) = current_index s + len1"
    and "peek (snd (snd (read drv len s))) = peek s - len1"
    using assms(1) by (simp_all add: r peek_def)
qed

text \<open>
  C2: each \<^verbatim>\<open>read\<close> moves the cursor by the number of bytes it delivers, so \<^verbatim>\<open>peek\<close>
  goes down by what \<^verbatim>\<open>read\<close> returns and reaches zero. The loop of \<^verbatim>\<open>read\<close> adds the
  whole remaining length to the cursor on every pass. Here 257 bytes remain and
  \<^verbatim>\<open>read\<close> is asked for 257: it returns 257 and copies 257 bytes, the cursor moves by
  \<open>257 + 1\<close> past the end of the file, and \<^verbatim>\<open>peek\<close> wraps around to \<open>2 ^ 32 - 1\<close>.
\<close>

theorem C2_read_overshoots:
  "peek reading_257 = 257
   \<and> fst (read nor_flash 257 reading_257) = 257
   \<and> length (fst (snd (read nor_flash 257 reading_257))) = 257
   \<and> current_index (snd (snd (read nor_flash 257 reading_257))) = 4096 + 258
   \<and> peek (snd (snd (read nor_flash 257 reading_257))) = 4294967295"
  by (simp add: read_def peek_def read_loop_page read_loop_rest reading_257_def fresh_def
      nor_flash_def del: upt_rec_numeral)

section \<open>Writing a file and reading it back\<close>

lemma write_loop_fill:
  "unat (write_buffer_index s) + length bs < FLASH_FAT_FILE_BUFFER \<Longrightarrow>
     write_loop drv bs s =
       Some (s\<lparr>write_buffer :=
                 (\<lambda>j. if unat (write_buffer_index s) \<le> j
                          \<and> j < unat (write_buffer_index s) + length bs
                       then bs ! (j - unat (write_buffer_index s)) else write_buffer s j),
               write_buffer_index := write_buffer_index s + of_nat (length bs)\<rparr>)"
proof (induction bs arbitrary: s)
  case Nil
  have "(\<lambda>j. if unat (write_buffer_index s) \<le> j \<and> j < unat (write_buffer_index s) + length ([] :: byte list)
             then [] ! (j - unat (write_buffer_index s)) else write_buffer s j) = write_buffer s"
    by (rule ext) auto
  then show ?case by simp
next
  case (Cons b bs)
  let ?k = "unat (write_buffer_index s)"
  let ?s1 = "s\<lparr>write_buffer := (write_buffer s)(?k := b),
                write_buffer_index := write_buffer_index s + 1\<rparr>"
  from Cons.prems have k: "?k + 1 + length bs < 512"
    by (simp add: FLASH_FAT_FILE_BUFFER_def)
  then have k1: "unat (write_buffer_index ?s1) = ?k + 1"
    by (simp add: unat_word_ariths)
  with k have small: "unat (write_buffer_index ?s1) + length bs < FLASH_FAT_FILE_BUFFER"
    by (simp add: FLASH_FAT_FILE_BUFFER_def)
  from k k1 have noflush: "\<not> write_buffer_index ?s1 \<ge> of_nat FLASH_FAT_FILE_BUFFER"
    by (simp add: word_le_nat_alt FLASH_FAT_FILE_BUFFER_def)
  have here: "\<not> ?k \<ge> FLASH_FAT_FILE_BUFFER"
    using k by (simp add: FLASH_FAT_FILE_BUFFER_def)
  have wb: "(\<lambda>j. if ?k + 1 \<le> j \<and> j < ?k + 1 + length bs
                 then bs ! (j - (?k + 1)) else ((write_buffer s)(?k := b)) j)
          = (\<lambda>j. if ?k \<le> j \<and> j < ?k + length (b # bs)
                 then (b # bs) ! (j - ?k) else write_buffer s j)"
    by (rule ext) (auto simp: nth_Cons')
  have "write_loop drv (b # bs) s = write_loop drv bs ?s1"
    using here noflush by (simp add: Let_def)
  also have "\<dots> = Some (?s1\<lparr>write_buffer :=
                 (\<lambda>j. if ?k + 1 \<le> j \<and> j < ?k + 1 + length bs
                       then bs ! (j - (?k + 1)) else write_buffer ?s1 j),
               write_buffer_index := write_buffer_index ?s1 + of_nat (length bs)\<rparr>)"
    using Cons.IH [OF small] by (simp only: k1)
  finally have r: "write_loop drv (b # bs) s = Some (?s1\<lparr>write_buffer :=
                 (\<lambda>j. if ?k + 1 \<le> j \<and> j < ?k + 1 + length bs
                       then bs ! (j - (?k + 1)) else write_buffer ?s1 j),
               write_buffer_index := write_buffer_index ?s1 + of_nat (length bs)\<rparr>)" .
  have e: "?s1\<lparr>write_buffer :=
                 (\<lambda>j. if ?k + 1 \<le> j \<and> j < ?k + 1 + length bs
                       then bs ! (j - (?k + 1)) else write_buffer ?s1 j),
               write_buffer_index := write_buffer_index ?s1 + of_nat (length bs)\<rparr>
           = s\<lparr>write_buffer :=
                 (\<lambda>j. if ?k \<le> j \<and> j < ?k + length (b # bs)
                       then (b # bs) ! (j - ?k) else write_buffer s j),
               write_buffer_index := write_buffer_index s + of_nat (length (b # bs))\<rparr>"
    using wb by (simp add: add.assoc cong: if_cong)
  show ?case
    by (simp only: r e)
qed

lemma nor_flash_idle [simp]:
  "snd (wait_until_free nor_flash f) = f" "snd (enable_writing nor_flash f) = f"
  by (simp_all add: nor_flash_def)

lemma nor_flash_read [simp]:
  "read_page nor_flash a f = ((W25Q64FV_OK, (\<lambda>j. f (a + of_nat j))), f)"
  by (simp add: nor_flash_def)

lemma nor_flash_write_ok [simp]: "fst (write_page nor_flash a d f) = W25Q64FV_OK"
  by (simp add: nor_flash_def)

lemma nor_flash_write:
  "snd (write_page nor_flash a d f) x
     = (if unat (x - a) < 256 then f x AND d (unat (x - a)) else f x)"
  by (simp add: nor_flash_def)

lemma nor_flash_erase:
  "snd (erase_sector nor_flash a f) x = (if drop_bit 12 x = drop_bit 12 a then 255 else f x)"
  by (simp add: nor_flash_def)

lemma byte_and_erased [simp]: "255 AND w = w" for w :: byte
proof -
  have "(255 :: byte) = - 1" by simp
  then show ?thesis by (simp only: and.left_neutral)
qed

lemma nor_flash_table_page:
  assumes "j < 256"
  shows "snd (write_page nor_flash 0 b (snd (erase_sector nor_flash 0 f))) (of_nat j) = b j"
proof -
  have u: "unat (of_nat j :: uint) = j"
    using assms by (simp add: unat_of_nat)
  then have "unat (drop_bit 12 (of_nat j :: uint)) = 0"
    using assms by (simp add: drop_bit_eq_div unat_div)
  then have "drop_bit 12 (of_nat j :: uint) = 0"
    by (simp add: word_unat_eq_iff)
  with u assms show ?thesis
    by (simp add: nor_flash_write nor_flash_erase)
qed

lemma nor_flash_load_stored:
  assumes "unat (num_files t) \<le> 49" and "table_buffer t = Some b"
  shows "\<exists>t'. get_file_allocation_table nor_flash t0
                 (snd (write_page nor_flash 0 b (snd (erase_sector nor_flash 0 f))))
               = Some (FLASHFAT_OK, t', snd (write_page nor_flash 0 b (snd (erase_sector nor_flash 0 f))))
             \<and> num_files t' = num_files t \<and> file_close_err t' = file_close_err t
             \<and> (\<forall>k. files t' k = (if k < unat (num_files t) then files t k else files t0 k))"
proof -
  let ?F = "snd (write_page nor_flash 0 b (snd (erase_sector nor_flash 0 f)))"
  let ?g = "\<lambda>j. ?F (0 + of_nat j)"
  note c = table_buffer_content [OF assms]
  have g: "?g j = b j" if "j < 256" for j
    using nor_flash_table_page [OF that, of b f] by simp
  have "?g j = b j" if "j \<in> set [0..<8]" for j
    using that by (intro g) simp
  then have "map ?g [0..<8] = map b [0..<8]"
    by (intro map_cong refl)
  with c(1) have pre: "map ?g [0..<8] = prefix_bytes" by simp
  have g8: "?g 8 = num_files t" and g9: "?g 9 = file_close_err t"
    using g [of 8] g [of 9] c(2,3) by simp_all
  let ?t1 = "t0\<lparr>num_files := ?g 8, file_close_err := ?g 9\<rparr>"
  have n1: "unat (num_files ?t1) \<le> 49" using assms(1) g8 by simp
  from get_entries_fits [OF n1, of 0 ?g] obtain t' where
    t': "get_entries ?g 0 10 ?t1 = Some t'" "num_files t' = num_files ?t1"
        "file_close_err t' = file_close_err ?t1"
        "\<forall>k. files t' k = (if k < unat (num_files ?t1) then entry_at ?g (10 + 5 * k) else files ?t1 k)"
    by auto
  have "files t' k = (if k < unat (num_files t) then files t k else files t0 k)" for k
  proof (cases "k < unat (num_files t)")
    case True
    with assms(1) have "10 + 5 * k + 4 < 256" by simp
    then have "?g (10 + 5 * k) = b (10 + 5 * k)" "?g (10 + 5 * k + 1) = b (10 + 5 * k + 1)"
      "?g (10 + 5 * k + 2) = b (10 + 5 * k + 2)" "?g (10 + 5 * k + 3) = b (10 + 5 * k + 3)"
      "?g (10 + 5 * k + 4) = b (10 + 5 * k + 4)"
      by (intro g; simp)+
    then have "entry_at ?g (10 + 5 * k) = entry_at b (10 + 5 * k)"
      by (simp only: entry_at_def)
    with True c(4) t'(4) g8 show ?thesis by simp
  next
    case False
    with t'(4) g8 show ?thesis by simp
  qed
  with pre t'(1,2,3) g8 g9 show ?thesis
    by (simp add: get_file_allocation_table_def)
qed

lemma close_file_flush:
  assumes "mode s = FLASHFAT_WRITE_MODE" and "write_buffer_index s \<noteq> 0"
    and "unat (write_buffer_index s) \<le> FLASH_FAT_FILE_BUFFER"
    and "close_pages drv (unat ((write_buffer_index s + 255) div 256)) 0
           (check_erase drv (s\<lparr>write_buffer :=
              (\<lambda>j. if unat (write_buffer_index s) \<le> j \<and> j < FLASH_FAT_FILE_BUFFER
                    then 255 else write_buffer s j)\<rparr>)) = (True, s3)"
  shows "close_file drv s = close_out drv s3"
  using assms by (simp add: close_file_def Let_def)

lemma nor_flash_store:
  assumes "table_buffer t = Some b"
  shows "write_file_allocation_table nor_flash t f
           = Some (FLASHFAT_OK, snd (write_page nor_flash 0 b (snd (erase_sector nor_flash 0 f))))"
  using assms by (simp add: write_file_allocation_table_def)

lemma first_page_cell:
  assumes "j < 256"
  shows "unat (of_nat j :: uint) = j"
    and "unat (4096 + of_nat j :: uint) = 4096 + j"
    and "drop_bit 12 (4096 + of_nat j :: uint) = 1"
    and "\<not> unat (of_nat j - 256 :: uint) < 256"
proof -
  show j: "unat (of_nat j :: uint) = j"
    using assms by (simp add: unat_of_nat)
  show u: "unat (4096 + of_nat j :: uint) = 4096 + j"
    using assms by (simp add: unat_word_ariths j)
  have "unat (drop_bit 12 (4096 + of_nat j :: uint)) = 1"
    using assms by (simp add: drop_bit_eq_div unat_div u)
  then show "drop_bit 12 (4096 + of_nat j :: uint) = 1"
    by (simp add: word_unat_eq_iff)
  have "unat (of_nat j - 256 :: uint) = 4294967040 + j"
    using assms by (simp add: unat_sub_if_size j word_size)
  then show "\<not> unat (of_nat j - 256 :: uint) < 256"
    by simp
qed

text \<open>
  C1: a file written with \<^verbatim>\<open>new_file\<close>, \<^verbatim>\<open>write\<close>, \<^verbatim>\<open>close_file\<close> and read back in full
  with \<^verbatim>\<open>open_file\<close> and \<^verbatim>\<open>read\<close> gives the bytes written, for 257 bytes among other
  lengths. Here 257 zero bytes go to the first file of an erased NOR flash and are read
  back with one \<^verbatim>\<open>read\<close> of 257. \<^verbatim>\<open>read\<close> returns 257 and delivers the 256 bytes of the
  first page, but by then its cursor is at \<open>4096 + 257\<close>, so the second page is read
  from 4353: the last byte delivered is the fill value 255 that \<^verbatim>\<open>close_file\<close>
  programmed after the data, not the byte 0 written at offset 256.
\<close>

theorem C1_round_trip_257:
  "write_then_read nor_flash (replicate 257 0) (fresh erased)
     = Some (257, replicate 256 0 @ [255])
   \<and> replicate 256 0 @ [255] \<noteq> replicate 257 (0 :: byte)"
proof -
  let ?zero = "\<lambda>i :: nat. \<lparr>start_page = 0, page_length = 0, end_offset = 0\<rparr>"
  let ?t1 = "\<lparr>num_files = 1, file_close_err = 0,
              files = ?zero(0 := \<lparr>start_page = 16, page_length = 0, end_offset = 0\<rparr>)\<rparr>"
  have "unat (num_files ?t1) \<le> 49" by simp
  from table_buffer_fits [OF this] obtain b1 where b1: "table_buffer ?t1 = Some b1" ..
  define F1 where "F1 = snd (write_page nor_flash 0 b1
               (snd (erase_sector nor_flash 0 (snd (erase_sector nor_flash 4096 erased)))))"
  define S1 where "S1 = (fresh erased)\<lparr>flash := F1, table := ?t1, mode := FLASHFAT_WRITE_MODE,
                erase_index := 8191, current_index := 4096\<rparr>"
  have s1: "new_file nor_flash (fresh erased) = Some (FLASHFAT_OK, S1)"
    by (simp add: new_file_def nor_flash_store [OF b1] FLASH_FAT_MAX_FILE_COUNT_def
        next_start_address_def last_used_address_def fresh_def S1_def F1_def)
  define W where "W = (\<lambda>j. if j < 257 then replicate 257 (0 :: byte) ! j else 0)"
  define S2 where "S2 = S1\<lparr>write_buffer := W, write_buffer_index := 257\<rparr>"
  have s2: "FlashFAT_write nor_flash (replicate 257 0) S1 = Some (FLASHFAT_OK, S2)"
    by (simp add: FlashFAT_write_def write_loop_fill FLASH_FAT_FILE_BUFFER_def fresh_def
        S1_def S2_def W_def cong: if_cong)
  define P where "P = (\<lambda>j. if 257 \<le> j \<and> j < 512 then 255 else W j)"
  define Fp where "Fp = snd (write_page nor_flash 4352 (\<lambda>j. P (256 + j))
               (snd (write_page nor_flash 4096 P F1)))"
  define S2p where "S2p = S2\<lparr>write_buffer := P, flash := Fp, current_index := 4353\<rparr>"
  have cp: "close_pages nor_flash (unat ((write_buffer_index S2 + 255) div 256)) 0
           (check_erase nor_flash (S2\<lparr>write_buffer :=
              (\<lambda>j. if unat (write_buffer_index S2) \<le> j \<and> j < FLASH_FAT_FILE_BUFFER
                    then 255 else write_buffer S2 j)\<rparr>)) = (True, S2p)"
    by (simp add: check_erase_def close_pages_step close_pages_done bytes_to_write_def
        FLASH_FAT_FILE_BUFFER_def fresh_def S1_def S2_def S2p_def P_def Fp_def cong: if_cong)
  let ?t3 = "\<lparr>num_files = 1, file_close_err = 255,
              files = ?zero(0 := \<lparr>start_page = 16, page_length = 1, end_offset = 1\<rparr>)\<rparr>"
  have t3: "close_out_table S2p = ?t3"
    by (simp add: close_out_table_def FLASH_FAT_NO_ERROR_FILE_def fresh_def S1_def S2_def S2p_def)
  have n3: "unat (num_files ?t3) \<le> 49" by simp
  from table_buffer_fits [OF this] obtain b3 where b3: "table_buffer ?t3 = Some b3" ..
  define F3 where "F3 = snd (write_page nor_flash 0 b3 (snd (erase_sector nor_flash 0 Fp)))"
  define S3 where "S3 = (fresh erased)\<lparr>flash := F3, table := ?t3, write_buffer := P\<rparr>"
  have "close_out nor_flash S2p = Some (FLASHFAT_OK, S3)"
    by (simp add: close_out_def t3 nor_flash_store [OF b3] reset_session_def)
       (simp add: FLASH_FAT_MAX_FILE_COUNT_def fresh_def S1_def S2_def S2p_def S3_def F3_def)
  with close_file_flush [OF _ _ _ cp] have s3: "close_file nor_flash S2 = Some (FLASHFAT_OK, S3)"
    by (simp add: FLASH_FAT_FILE_BUFFER_def fresh_def S1_def S2_def)
  from nor_flash_load_stored [OF n3 b3, of ?t3 Fp] obtain t4 where
    t4: "get_file_allocation_table nor_flash ?t3 F3 = Some (FLASHFAT_OK, t4, F3)"
        "num_files t4 = 1" "files t4 0 = \<lparr>start_page = 16, page_length = 1, end_offset = 1\<rparr>"
    by (auto simp: F3_def)
  define S4 where "S4 = S3\<lparr>table := t4, mode := FLASHFAT_READ_MODE, current_index := 4096,
                end_index := 4353\<rparr>"
  have s4: "open_file nor_flash 0 S3 = Some (FLASHFAT_OK, S4)"
    by (simp add: open_file_def t4 FLASH_FAT_MAX_FILE_COUNT_def fresh_def S3_def S4_def)
  have "F1 4353 = 255"
    by (simp add: F1_def nor_flash_write nor_flash_erase)
  moreover have "P 257 = 255"
    by (simp add: P_def)
  ultimately have last_cell: "F3 4353 = 255"
    by (simp add: F3_def Fp_def nor_flash_write nor_flash_erase)
  have cells: "F3 (4096 + of_nat j) = 0" if "j < 256" for j
  proof -
    note c = first_page_cell [OF that]
    have "F1 (4096 + of_nat j) = 255"
      by (simp add: F1_def nor_flash_write nor_flash_erase c)
    moreover have "P j = 0"
      using that by (simp add: P_def W_def)
    ultimately show ?thesis
      using that by (simp add: F3_def Fp_def nor_flash_write nor_flash_erase c)
  qed
  then have "\<forall>j \<in> set [0..<256]. F3 (4096 + of_nat j) = 0"
    by simp
  then have "map (\<lambda>j. F3 (4096 + of_nat j)) [0..<256] = replicate (length [0..<256 :: nat]) 0"
    by (simp only: map_replicate_const [symmetric] map_eq_conv)
  then have first_page: "map (\<lambda>j. F3 (4096 + of_nat j)) [0..<256] = replicate 256 0"
    by (simp del: upt_rec_numeral)
  have s5: "read nor_flash 257 S4
              = (257, map (\<lambda>j. F3 (4096 + of_nat j)) [0..<256] @ [F3 4353],
                 S4\<lparr>current_index := 4354\<rparr>)"
    by (simp add: read_def peek_def read_loop_page read_loop_rest fresh_def S4_def S3_def
          del: upt_rec_numeral)
  have "num_files (table S3) = 1"
    by (simp add: S3_def)
  then have result: "write_then_read nor_flash (replicate 257 0) (fresh erased)
                       = Some (257, replicate 256 0 @ [255])"
    by (simp add: write_then_read_def s1 s2 s3 s4 s5 first_page last_cell del: upt_rec_numeral)
  have "(replicate 256 0 @ [255]) ! 256 = (255 :: byte)" "replicate 257 0 ! 256 = (0 :: byte)"
    by (simp_all add: nth_append)
  then have "replicate 256 0 @ [255] \<noteq> replicate 257 (0 :: byte)"
    by auto
  with result show ?thesis
    by simp
qed

section \<open>The invariant of the table\<close>

lemma ascending_snoc:
  "ascending (es @ [e]) =
     (ascending es \<and> (es = [] \<or> entry_begin (last es) < entry_begin e
                                  \<and> entry_end (last es) \<le> entry_begin e))"
  by (induction es rule: ascending.induct) auto

lemma entry_begin_le_end: "entry_begin e \<le> entry_end e"
  by (simp add: entry_begin_def entry_end_def)

lemma new_file_keeps_invariant:
  assumes "mode s = FLASHFAT_NO_MODE"
    and "unat (num_files (table s)) < 49"
    and "last_end (table s) < 2 ^ 24 - 4096"
    and "table_invariant (table s)"
    and "new_file drv s = Some (r, s')"
  shows "table_invariant (table s')"
proof -
  let ?n = "unat (num_files (table s))"
  let ?e = "(files (table s) ?n)\<lparr>start_page := ucast (drop_bit 8 (next_start_address (table s)))\<rparr>"
  let ?a = "(last_end (table s) div 4096 + 1) * 4096"
  from new_file_returns [OF assms(1,2), of drv] assms(5) have
    t': "num_files (table s') = num_files (table s) + 1"
        "files (table s') = (files (table s))(?n := ?e)"
    by auto
  from assms(2) have n1: "unat (num_files (table s) + 1) = ?n + 1"
    by (simp add: unat_succ_files FLASH_FAT_MAX_FILE_COUNT_def)
  have es: "table_entries (table s') = table_entries (table s) @ [?e]"
    by (simp add: table_entries_def t' n1)
  have b: "entry_begin ?e = ?a"
    by (rule new_file_entry_begin [OF assms(3)])
  have al: "sector_aligned ?e" "behind_table_sector ?e"
    by (simp_all add: sector_aligned_def behind_table_sector_def b)
  have asc: "table_entries (table s) = [] \<or>
               entry_begin (last (table_entries (table s))) < entry_begin ?e
               \<and> entry_end (last (table_entries (table s))) \<le> entry_begin ?e"
  proof (cases "?n = 0")
    case True
    then show ?thesis by (simp add: table_entries_def)
  next
    case False
    then have l: "last (table_entries (table s)) = files (table s) (?n - 1)"
      by (simp add: table_entries_def last_map)
    from False have "num_files (table s) \<noteq> 0"
      by (auto simp: unat_eq_0)
    then have "last_end (table s) = entry_end (files (table s) (?n - 1))"
      by (simp add: last_end_def)
    moreover have "last_end (table s) < ?a" by simp
    ultimately show ?thesis
      using entry_begin_le_end [of "files (table s) (?n - 1)"] by (simp add: l b)
  qed
  from assms(4) al asc show ?thesis
    by (simp add: table_invariant_def es ascending_snoc)
qed

lemma invariant_of_prefix:
  assumes "table_invariant t" and "num_files t \<noteq> 0"
  shows "table_invariant (t\<lparr>num_files := num_files t - 1\<rparr>)"
proof -
  let ?n = "unat (num_files t)"
  from assms(2) have pos: "0 < ?n"
    by (simp add: unat_gt_0)
  then have "(1 :: byte) \<le> num_files t"
    by (simp add: word_le_nat_alt)
  from unat_sub [OF this] have n1: "unat (num_files t - 1) = ?n - 1"
    by simp
  from pos have "[0..<?n] = [0..<?n - 1] @ [?n - 1]"
    by (cases ?n) simp_all
  then have "table_entries t = table_entries (t\<lparr>num_files := num_files t - 1\<rparr>) @ [files t (?n - 1)]"
    by (simp add: table_entries_def n1)
  with assms(1) show ?thesis
    by (simp add: table_invariant_def ascending_snoc)
qed

lemma delete_last_file_keeps_invariant:
  assumes "table_invariant (table s)" and "delete_last_file drv s = Some (r, s')"
  shows "table_invariant (table s')"
proof -
  from assms(2) have "table s' = table s
      \<or> num_files (table s) \<noteq> 0 \<and> table s' = (table s)\<lparr>num_files := num_files (table s) - 1\<rparr>"
    by (auto simp: delete_last_file_def Let_def word_greater_zero_iff
          split: if_splits option.splits)
  with assms(1) invariant_of_prefix [of "table s"] show ?thesis
    by auto
qed

lemma delete_all_files_keeps_invariant:
  assumes "table_invariant (table s)" and "delete_all_files drv s = Some (r, s')"
  shows "table_invariant (table s')"
proof -
  from assms(2) have "table s' = table s \<or> num_files (table s') = 0"
    by (auto simp: delete_all_files_def Let_def split: if_splits option.splits)
  with assms(1) show ?thesis
    by (auto simp: table_invariant_def table_entries_def)
qed

text \<open>
  C8: every operation keeps the invariant of the table: entries on sector boundaries,
  behind the sector of the table, each after the one before. The delete operations keep
  it, and \<^verbatim>\<open>new_file\<close> keeps it while the last file ends below \<open>2 ^ 24 - 4096\<close>
  (\<open>new_file_keeps_invariant\<close>). \<^verbatim>\<open>new_file\<close> does not check the space left (its
  comment says so) and stores the start page in 16 bits. Here the table holds one file
  that ends at \<open>2 ^ 24 - 4096\<close>: the next start address is \<open>2 ^ 24\<close>, its page number
  65536 is stored as 0, and the new entry lies at address 0, in the sector of the table
  and before the first file.
\<close>

theorem C8_new_file_wraps:
  "mode (near_the_top erased) = FLASHFAT_NO_MODE
   \<and> table_invariant (table (near_the_top erased))
   \<and> new_file nor_flash (near_the_top erased) \<noteq> None
   \<and> fst (the (new_file nor_flash (near_the_top erased))) = FLASHFAT_OK
   \<and> num_files (table (snd (the (new_file nor_flash (near_the_top erased))))) = 2
   \<and> files (table (snd (the (new_file nor_flash (near_the_top erased))))) 1
        = \<lparr>start_page = 0, page_length = 0, end_offset = 0\<rparr>
   \<and> current_index (snd (the (new_file nor_flash (near_the_top erased)))) = 16777216
   \<and> \<not> table_invariant (table (snd (the (new_file nor_flash (near_the_top erased)))))"
proof -
  have n: "next_start_address (table (near_the_top erased)) = 16777216"
    by (simp add: next_start_address_def last_used_address_def near_the_top_def fresh_def)
  have "mode (near_the_top erased) = FLASHFAT_NO_MODE"
    "unat (num_files (table (near_the_top erased))) < 49"
    by (simp_all add: near_the_top_def fresh_def)
  from new_file_returns [OF this, of nor_flash] obtain f' where
    r: "new_file nor_flash (near_the_top erased) = Some (FLASHFAT_OK,
       (near_the_top erased)\<lparr>flash := f',
             table := (table (near_the_top erased))\<lparr>num_files := num_files (table (near_the_top erased)) + 1,
                 files := (files (table (near_the_top erased)))(unat (num_files (table (near_the_top erased))) :=
                    (files (table (near_the_top erased)) (unat (num_files (table (near_the_top erased)))))
                      \<lparr>start_page := ucast (drop_bit 8 (next_start_address (table (near_the_top erased))))\<rparr>),
                 file_close_err := num_files (table (near_the_top erased))\<rparr>,
             mode := FLASHFAT_WRITE_MODE,
             erase_index := next_start_address (table (near_the_top erased)) + 4095,
             current_index := next_start_address (table (near_the_top erased)),
             file_index := ucast (num_files (table (near_the_top erased)))\<rparr>)"
    by blast
  have z: "(65536 :: 16 word) = 0"
    by simp
  have two: "[0..<unat (2 :: byte)] = [0, 1]"
  proof -
    have "[0..<Suc (Suc 0)] = [0, 1]"
      by simp
    then have "[0..<2 :: nat] = [0, 1]"
      by (simp only: numeral_2_eq_2)
    then show ?thesis by simp
  qed
  have before: "table_entries (table (near_the_top erased))
                  = [\<lparr>start_page = 16, page_length = 65504, end_offset = 0\<rparr>]"
    by (simp add: table_entries_def near_the_top_def fresh_def)
  have T: "table (snd (the (new_file nor_flash (near_the_top erased))))
             = \<lparr>num_files = 2, file_close_err = 1,
                files = (\<lambda>i. \<lparr>start_page = 0, page_length = 0, end_offset = 0\<rparr>)
                  (0 := \<lparr>start_page = 16, page_length = 65504, end_offset = 0\<rparr>,
                   1 := \<lparr>start_page = 0, page_length = 0, end_offset = 0\<rparr>)\<rparr>"
    by (simp add: r n) (simp add: near_the_top_def fresh_def z)
  have after: "table_entries (table (snd (the (new_file nor_flash (near_the_top erased)))))
                 = [\<lparr>start_page = 16, page_length = 65504, end_offset = 0\<rparr>,
                    \<lparr>start_page = 0, page_length = 0, end_offset = 0\<rparr>]"
    by (simp only: T table_entries_def FlashFAT_file_allocation_table.simps two) simp
  have "\<not> behind_table_sector \<lparr>start_page = 0, page_length = 0, end_offset = 0\<rparr>"
    by (simp add: behind_table_sector_def entry_begin_def)
  then have broken: "\<not> table_invariant (table (snd (the (new_file nor_flash (near_the_top erased)))))"
    by (simp add: table_invariant_def after)
  have held: "table_invariant (table (near_the_top erased))"
    by (simp add: table_invariant_def before sector_aligned_def behind_table_sector_def
        entry_begin_def)
  have m: "mode (near_the_top erased) = FLASHFAT_NO_MODE"
    by (simp add: near_the_top_def fresh_def)
  have ok: "new_file nor_flash (near_the_top erased) \<noteq> None"
    "fst (the (new_file nor_flash (near_the_top erased))) = FLASHFAT_OK"
    "current_index (snd (the (new_file nor_flash (near_the_top erased)))) = 16777216"
    by (simp_all add: r n)
  from m held ok broken show ?thesis
    by (simp add: T)
qed

section \<open>The table on the device after a close\<close>

theorem C9_close_file_finalizes_witness:
  "mode writing_1000 = FLASHFAT_WRITE_MODE
   \<and> unat (write_buffer_index writing_1000) \<le> FLASH_FAT_FILE_BUFFER
   \<and> unat (file_index writing_1000) < FLASH_FAT_MAX_FILE_COUNT
   \<and> unat (num_files (table writing_1000)) \<le> 49
   \<and> fst (flush_of_close nor_flash writing_1000)
   \<and> (\<exists>s' t'. close_file nor_flash writing_1000 = Some (FLASHFAT_OK, s')
         \<and> mode s' = FLASHFAT_NO_MODE \<and> write_buffer_index s' = 0 \<and> file_index s' = 0
         \<and> erase_index s' = 0 \<and> current_index s' = 0
         \<and> num_files (table s') = 1 \<and> file_close_err (table s') = 255
         \<and> files (table s') 0 = \<lparr>start_page = 16, page_length = 3, end_offset = 232\<rparr>
         \<and> get_file_allocation_table nor_flash (table (fresh erased)) (flash s')
             = Some (FLASHFAT_OK, t', flash s')
         \<and> num_files t' = 1 \<and> file_close_err t' = 255
         \<and> files t' 0 = \<lparr>start_page = 16, page_length = 3, end_offset = 232\<rparr>)
   \<and> fst (flush_of_close table_page_dead writing_1000)
   \<and> (\<exists>s'. close_file table_page_dead writing_1000 = Some (FLASHFAT_OK, s')
         \<and> mode s' = FLASHFAT_NO_MODE
         \<and> files (table s') 0 = \<lparr>start_page = 16, page_length = 3, end_offset = 232\<rparr>
         \<and> flash s' 0 = 255)"
proof -
  have h: "mode writing_1000 = FLASHFAT_WRITE_MODE"
    "unat (write_buffer_index writing_1000) \<le> FLASH_FAT_FILE_BUFFER"
    "unat (file_index writing_1000) < FLASH_FAT_MAX_FILE_COUNT"
    "unat (num_files (table writing_1000)) \<le> 49"
    by (simp_all add: writing_1000_def fresh_def FLASH_FAT_FILE_BUFFER_def
        FLASH_FAT_MAX_FILE_COUNT_def)
  have fl: "fst (flush_of_close nor_flash writing_1000)"
    by (simp add: flush_of_close_def close_pages_step close_pages_done check_erase_def
        FLASH_FAT_FILE_BUFFER_def writing_1000_def fresh_def)
  have fl2: "fst (flush_of_close table_page_dead writing_1000)"
    by (simp add: flush_of_close_def close_pages_step close_pages_done check_erase_def
        FLASH_FAT_FILE_BUFFER_def writing_1000_def fresh_def table_page_dead_def
        bytes_to_write_def)
  let ?F = "flash (snd (flush_of_close nor_flash writing_1000))"
  from C9_close_file_finalizes [OF h fl] obtain s' b where
    c: "close_file nor_flash writing_1000 = Some (FLASHFAT_OK, s')"
    and r: "mode s' = FLASHFAT_NO_MODE" "write_buffer_index s' = 0" "file_index s' = 0"
      "erase_index s' = 0" "current_index s' = 0"
    and t: "table s' =
       (table writing_1000)\<lparr>file_close_err := 255,
          files := (files (table writing_1000))(unat (file_index writing_1000) :=
            (files (table writing_1000) (unat (file_index writing_1000)))
              \<lparr>page_length := ucast ((current_index writing_1000 + write_buffer_index writing_1000
                   - ucast (start_page (files (table writing_1000) (unat (file_index writing_1000)))) * 256) div 256),
               end_offset := ucast (write_buffer_index writing_1000 mod 256)\<rparr>)\<rparr>"
    and tb: "table_buffer (table s') = Some b"
    and f: "flash s' = program_table_page nor_flash b ?F"
    by blast
  have t1: "num_files (table s') = 1" "file_close_err (table s') = 255"
    "files (table s') 0 = \<lparr>start_page = 16, page_length = 3, end_offset = 232\<rparr>"
    by (simp_all add: t writing_1000_def fresh_def)
  have f': "flash s' = snd (write_page nor_flash 0 b (snd (erase_sector nor_flash 0 ?F)))"
    by (simp add: f program_table_page_def)
  have "unat (num_files (table s')) \<le> 49"
    by (simp add: t1)
  from nor_flash_load_stored [OF this tb, of "table (fresh erased)" ?F] obtain t' where
    g: "get_file_allocation_table nor_flash (table (fresh erased)) (flash s')
          = Some (FLASHFAT_OK, t', flash s')"
    and t': "num_files t' = num_files (table s')" "file_close_err t' = file_close_err (table s')"
      "\<forall>k. files t' k = (if k < unat (num_files (table s')) then files (table s') k
                            else files (table (fresh erased)) k)"
    unfolding f' by blast
  from t'(3) have "files t' 0 = files (table s') 0"
    by (simp add: t1)
  with c r t1 g t'(1,2) have A: "\<exists>s' t'. close_file nor_flash writing_1000 = Some (FLASHFAT_OK, s')
         \<and> mode s' = FLASHFAT_NO_MODE \<and> write_buffer_index s' = 0 \<and> file_index s' = 0
         \<and> erase_index s' = 0 \<and> current_index s' = 0
         \<and> num_files (table s') = 1 \<and> file_close_err (table s') = 255
         \<and> files (table s') 0 = \<lparr>start_page = 16, page_length = 3, end_offset = 232\<rparr>
         \<and> get_file_allocation_table nor_flash (table (fresh erased)) (flash s')
             = Some (FLASHFAT_OK, t', flash s')
         \<and> num_files t' = 1 \<and> file_close_err t' = 255
         \<and> files t' 0 = \<lparr>start_page = 16, page_length = 3, end_offset = 232\<rparr>"
    by (intro exI [of _ s'] exI [of _ t']) simp
  let ?G = "flash (snd (flush_of_close table_page_dead writing_1000))"
  from C9_close_file_finalizes [OF h fl2] obtain s2 b2 where
    c2: "close_file table_page_dead writing_1000 = Some (FLASHFAT_OK, s2)"
    and r2: "mode s2 = FLASHFAT_NO_MODE"
    and t2: "table s2 =
       (table writing_1000)\<lparr>file_close_err := 255,
          files := (files (table writing_1000))(unat (file_index writing_1000) :=
            (files (table writing_1000) (unat (file_index writing_1000)))
              \<lparr>page_length := ucast ((current_index writing_1000 + write_buffer_index writing_1000
                   - ucast (start_page (files (table writing_1000) (unat (file_index writing_1000)))) * 256) div 256),
               end_offset := ucast (write_buffer_index writing_1000 mod 256)\<rparr>)\<rparr>"
    and f2: "flash s2 = program_table_page table_page_dead b2 ?G"
    by blast
  have e2: "files (table s2) 0 = \<lparr>start_page = 16, page_length = 3, end_offset = 232\<rparr>"
    by (simp add: t2 writing_1000_def fresh_def)
  have "flash s2 0 = 255"
    by (simp add: f2 program_table_page_def table_page_dead_def nor_flash_erase)
  with c2 r2 e2 have B: "\<exists>s'. close_file table_page_dead writing_1000 = Some (FLASHFAT_OK, s')
         \<and> mode s' = FLASHFAT_NO_MODE
         \<and> files (table s') 0 = \<lparr>start_page = 16, page_length = 3, end_offset = 232\<rparr>
         \<and> flash s' 0 = 255"
    by (intro exI [of _ s2]) simp
  from h fl A fl2 B show ?thesis
    by (simp only: simp_thms)
qed

end
